theory Spec2Isabelle
  imports Main "HOL-Library.Log_Nat" "HOL-Library.Multiset"
begin

section \<open>JavaScript numbers and \<^verbatim>\<open>parseFloat\<close>\<close>

text \<open>
  The page \<^verbatim>\<open>src/pages/v1/scratch/[id].tsx\<close> keeps every amount as a string and reads
  it with \<^verbatim>\<open>parseFloat\<close>. A JavaScript number is an IEEE 754 double: a rational of a
  special shape, one of the two infinities, or NaN. The model keeps the rational itself.
  The two zeros are one value here: the page only compares numbers (\<^verbatim>\<open>>=\<close>,
  \<^verbatim>\<open>===\<close>), and both comparisons identify them.
\<close>

datatype number = NaN | Finite rat | PosInfinity | NegInfinity

text \<open>The comparisons \<^verbatim>\<open>a >= b\<close>, \<^verbatim>\<open>a < b\<close> and \<^verbatim>\<open>a === b\<close>: false as soon as one side is NaN.\<close>

fun js_ge :: "number \<Rightarrow> number \<Rightarrow> bool" where
  "js_ge NaN _ = False"
| "js_ge _ NaN = False"
| "js_ge PosInfinity _ = True"
| "js_ge _ NegInfinity = True"
| "js_ge (Finite a) (Finite b) = (b \<le> a)"
| "js_ge (Finite a) PosInfinity = False"
| "js_ge NegInfinity _ = False"

fun js_lt :: "number \<Rightarrow> number \<Rightarrow> bool" where
  "js_lt NaN _ = False"
| "js_lt _ NaN = False"
| "js_lt PosInfinity _ = False"
| "js_lt _ NegInfinity = False"
| "js_lt (Finite a) (Finite b) = (a < b)"
| "js_lt (Finite a) PosInfinity = True"
| "js_lt NegInfinity _ = True"

fun js_eq :: "number \<Rightarrow> number \<Rightarrow> bool" where
  "js_eq NaN _ = False"
| "js_eq _ NaN = False"
| "js_eq a b = (a = b)"

subsection \<open>Rounding a rational to the nearest double\<close>

definition pow2 :: "int \<Rightarrow> rat" where
  "pow2 e = (if 0 \<le> e then 2 ^ nat e else 1 / 2 ^ nat (- e))"

definition pow10 :: "int \<Rightarrow> rat" where
  "pow10 e = (if 0 \<le> e then 10 ^ nat e else 1 / 10 ^ nat (- e))"

text \<open>The exponent \<open>k\<close> with \<open>2\<^sup>k \<le> a < 2\<^sup>k\<^sup>+\<^sup>1\<close>, for a positive \<open>a\<close>.\<close>

definition binade :: "rat \<Rightarrow> int" where
  "binade a = (let (n, d) = quotient_of a; k = bitlen n - bitlen d
               in if pow2 k \<le> a then k else k - 1)"

definition roundHalfEven :: "rat \<Rightarrow> int" where
  "roundHalfEven x = (let f = \<lfloor>x\<rfloor>; r = x - of_int f
     in if r < 1 / 2 then f else if 1 / 2 < r then f + 1 else if even f then f else f + 1)"

text \<open>
  Round to nearest, ties to even, with a 53-bit significand; the subnormals share the
  exponent \<open>-1022\<close>; a result of \<open>2\<^sup>1\<^sup>0\<^sup>2\<^sup>4\<close> or more is an infinity.
\<close>

definition toDouble :: "rat \<Rightarrow> number" where
  "toDouble q = (if q = 0 then Finite 0 else
     let a = \<bar>q\<bar>;
         e = max (binade a) (- 1022);
         ulp = pow2 (e - 52);
         v = of_int (roundHalfEven (a / ulp)) * ulp
     in if 1023 \<le> e \<and> (1024 \<le> e \<or> pow2 1024 \<le> v)
        then (if q < 0 then NegInfinity else PosInfinity)
        else Finite (if q < 0 then - v else v))"

text \<open>
  The spacing of the doubles around a positive \<open>a\<close>, and the doubles of \<open>[0, 1)\<close>, which
  are what \<^verbatim>\<open>Math.random()\<close> returns.
\<close>

definition ulpOf :: "rat \<Rightarrow> rat" where
  "ulpOf a = pow2 (max (binade a) (- 1022) - 52)"

definition unitDouble :: "rat \<Rightarrow> bool" where
  "unitDouble u = (0 \<le> u \<and> u < 1 \<and> toDouble u = Finite u)"

subsection \<open>Arithmetic and indexing\<close>

text \<open>
  \<^verbatim>\<open>a * b\<close>: the exact product rounded to a double, with the IEEE 754 rules for NaN and
  the infinities. \<^verbatim>\<open>Math.floor\<close> keeps NaN and the infinities. \<^verbatim>\<open>xs.length\<close> is below
  \<open>2\<^sup>3\<^sup>2\<close> in JavaScript and so a double as it stands. \<^verbatim>\<open>xs[v]\<close> for a number \<open>v\<close>
  is an element only when \<open>v\<close> is an integer within range, and undefined otherwise.
\<close>

definition js_sgn :: "number \<Rightarrow> int" where
  "js_sgn v =
     (case v of
        NaN \<Rightarrow> 0
      | Finite x \<Rightarrow> (if x < 0 then - 1 else if x = 0 then 0 else 1)
      | PosInfinity \<Rightarrow> 1
      | NegInfinity \<Rightarrow> - 1)"

definition js_times :: "number \<Rightarrow> number \<Rightarrow> number" where
  "js_times a b =
     (case (a, b) of
        (NaN, _) \<Rightarrow> NaN
      | (_, NaN) \<Rightarrow> NaN
      | (Finite x, Finite y) \<Rightarrow> toDouble (x * y)
      | _ \<Rightarrow> (if js_sgn a * js_sgn b = 0 then NaN
              else if 0 < js_sgn a * js_sgn b then PosInfinity else NegInfinity))"

definition Math_floor :: "number \<Rightarrow> number" where
  "Math_floor v = (case v of Finite x \<Rightarrow> Finite (of_int \<lfloor>x\<rfloor>) | _ \<Rightarrow> v)"

definition js_length :: "'a list \<Rightarrow> number" where
  "js_length xs = Finite (of_nat (length xs))"

definition js_at :: "'a list \<Rightarrow> number \<Rightarrow> 'a option" where
  "js_at xs v =
     (case v of
        Finite x \<Rightarrow>
          if of_int \<lfloor>x\<rfloor> = x \<and> 0 \<le> x \<and> \<lfloor>x\<rfloor> < int (length xs) then Some (xs ! nat \<lfloor>x\<rfloor>)
          else None
      | _ \<Rightarrow> None)"

subsection \<open>\<^verbatim>\<open>parseFloat\<close>\<close>

text \<open>
  \<^verbatim>\<open>parseFloat\<close> skips leading white space, reads the longest prefix that is a
  \<^verbatim>\<open>StrDecimalLiteral\<close> (a sign, then \<^verbatim>\<open>Infinity\<close> or digits with an optional
  fraction and exponent) and rounds its value to a double; with no such prefix the result
  is NaN. A \<^typ>\<open>char\<close> is one code unit below 256, so the white space of the model is
  the white space of Latin-1. A literal of more than 20 significant digits may be rounded
  in two steps by an engine; the model rounds once.
\<close>

definition isWhiteSpace :: "char \<Rightarrow> bool" where
  "isWhiteSpace c = (of_char c \<in> {9, 10, 11, 12, 13, 32, 160 :: nat})"

definition isDigit :: "char \<Rightarrow> bool" where
  "isDigit c = (48 \<le> (of_char c :: nat) \<and> (of_char c :: nat) \<le> 57)"

definition digitsValue :: "string \<Rightarrow> int" where
  "digitsValue ds = foldl (\<lambda>a c. 10 * a + (of_char c - 48)) 0 ds"

text \<open>The value of an \<^verbatim>\<open>ExponentPart\<close> at the head of the string, 0 when there is none.\<close>

definition exponentPart :: "string \<Rightarrow> int" where
  "exponentPart s =
     (case s of
        [] \<Rightarrow> 0
      | c # t \<Rightarrow>
          if c = CHR ''e'' \<or> c = CHR ''E'' then
            (case t of
               [] \<Rightarrow> 0
             | d # u \<Rightarrow>
                 if d = CHR ''+'' then digitsValue (takeWhile isDigit u)
                 else if d = CHR ''-'' then - digitsValue (takeWhile isDigit u)
                 else digitsValue (takeWhile isDigit t))
          else 0)"

datatype literal_value = LitInfinity | LitRational rat

text \<open>The longest prefix that is a \<^verbatim>\<open>StrUnsignedDecimalLiteral\<close>, as its value.\<close>

definition strUnsignedDecimalLiteral :: "string \<Rightarrow> literal_value option" where
  "strUnsignedDecimalLiteral s =
     (if take 8 s = ''Infinity'' then Some LitInfinity
      else
        let ip = takeWhile isDigit s;
            r1 = dropWhile isDigit s;
            dotted = (case r1 of
                        [] \<Rightarrow> False
                      | c # t \<Rightarrow> c = CHR ''.'' \<and> (ip \<noteq> [] \<or> (case t of [] \<Rightarrow> False | d # _ \<Rightarrow> isDigit d)));
            fp = (if dotted then takeWhile isDigit (tl r1) else []);
            r2 = (if dotted then dropWhile isDigit (tl r1) else r1)
        in if ip = [] \<and> fp = [] then None
           else Some (LitRational
                  (of_int (digitsValue (ip @ fp)) * pow10 (exponentPart r2 - int (length fp)))))"

definition parseFloat :: "string \<Rightarrow> number" where
  "parseFloat s =
     (let t = dropWhile isWhiteSpace s;
          neg = (t \<noteq> [] \<and> hd t = CHR ''-'');
          signed = (t \<noteq> [] \<and> (hd t = CHR ''-'' \<or> hd t = CHR ''+''))
      in case strUnsignedDecimalLiteral (if signed then tl t else t) of
           None \<Rightarrow> NaN
         | Some LitInfinity \<Rightarrow> (if neg then NegInfinity else PosInfinity)
         | Some (LitRational q) \<Rightarrow> toDouble (if neg then - q else q))"

section \<open>Rarity\<close>

datatype rarity = Common | Rare | Epic | Legendary

text \<open>\<^verbatim>\<open>getRarityFromValue\<close> (lines 195-200).\<close>

definition getRarityFromValue :: "number \<Rightarrow> rarity" where
  "getRarityFromValue v =
     (if js_ge v (Finite 1000) then Legendary
      else if js_ge v (Finite 100) then Epic
      else if js_ge v (Finite 10) then Rare
      else Common)"

section \<open>The data of the page\<close>

text \<open>
  The interfaces of lines 22-124, with the fields the game logic reads and the active
  flag of a prize. A field of type
  \<^verbatim>\<open>string | null\<close> is a \<^typ>\<open>string option\<close>. The category (\<^verbatim>\<open>type\<close>) stays a string,
  as in the source, which compares it with \<^verbatim>\<open>'MONEY'\<close> and \<^verbatim>\<open>'PRODUCT'\<close>.
\<close>

record Prize =
  prize_id :: string
  prize_name :: string
  prize_type :: string
  prize_value :: string
  prize_product_name :: "string option"
  prize_redemption_value :: "string option"
  prize_image_url :: string
  prize_is_active :: bool

record ScratchCardData =
  card_name :: string
  card_price :: string
  prizes :: "Prize list"

record GamePrize =
  won_id :: string
  won_name :: string
  won_type :: string
  won_value :: string
  won_product_name :: "string option"
  won_redemption_value :: "string option"

record GameResult =
  isWinner :: bool
  amountWon :: string
  prize :: "GamePrize option"

record RouletteItem =
  item_id :: string
  item_name :: string
  item_image :: string
  item_value :: string
  item_type :: string
  isWinning :: "bool option"
  item_rarity :: rarity

datatype GameState = idle | loading | spinning | completed

text \<open>
  \<^verbatim>\<open>a || b\<close> for a nullable string \<open>a\<close>: \<open>b\<close> when \<open>a\<close> is null, undefined or empty.
\<close>

definition or_string :: "string option \<Rightarrow> string \<Rightarrow> string" where
  "or_string a b = (case a of None \<Rightarrow> b | Some s \<Rightarrow> if s = [] then b else s)"

definition falsy :: "string option \<Rightarrow> bool" where
  "falsy a = (case a of None \<Rightarrow> True | Some s \<Rightarrow> s = [])"

text \<open>\<^verbatim>\<open>xs[i]\<close>: undefined out of range.\<close>

definition js_index :: "'a list \<Rightarrow> int \<Rightarrow> 'a option" where
  "js_index xs i = (if 0 \<le> i \<and> i < int (length xs) then Some (xs ! nat i) else None)"

text \<open>\<^verbatim>\<open>xs.findIndex(P)\<close>: the first position where \<open>P\<close> holds, or -1.\<close>

fun findIndex :: "('a \<Rightarrow> bool) \<Rightarrow> 'a list \<Rightarrow> int" where
  "findIndex P [] = - 1"
| "findIndex P (x # xs) =
     (if P x then 0 else (let i = findIndex P xs in if i < 0 then - 1 else i + 1))"

text \<open>\<^verbatim>\<open>s.replace(pat, rep)\<close> with a string pattern: the first occurrence only.\<close>

fun replaceFirst :: "string \<Rightarrow> string \<Rightarrow> string \<Rightarrow> string" where
  "replaceFirst pat rep [] = (if pat = [] then rep else [])"
| "replaceFirst pat rep (c # cs) =
     (if take (length pat) (c # cs) = pat then rep @ drop (length pat) (c # cs)
      else c # replaceFirst pat rep cs)"

text \<open>\<^verbatim>\<open>fixImageUrl\<close> (lines 157-163).\<close>

definition fixImageUrl :: "string \<Rightarrow> string" where
  "fixImageUrl url =
     (if url = [] then []
      else replaceFirst ''/uploads/prizes/'' ''/uploads/''
             (replaceFirst ''/uploads/scratchcards/'' ''/uploads/''
                (replaceFirst ''raspa.ae'' ''api.raspapixoficial.com'' url)))"

text \<open>A number in a template literal: its decimal digits.\<close>

fun showNat :: "nat \<Rightarrow> string" where
  "showNat n =
     (if n < 10 then [char_of (48 + n)]
      else showNat (n div 10) @ [char_of (48 + n mod 10)])"

declare showNat.simps [simp del]

section \<open>The prize catalog expander\<close>

text \<open>
  \<^verbatim>\<open>generateRouletteItems\<close> (lines 203-234). \<open>prizeRarity\<close> is the local \<^verbatim>\<open>rarity\<close>
  of lines 208-209, \<open>repetitions\<close> the switch of lines 212-218, \<open>makeItem\<close> the object
  pushed at lines 221-228 (it has no \<^verbatim>\<open>isWinning\<close> property), \<open>pushPrize\<close> the callback
  of \<^verbatim>\<open>forEach\<close> with its loop. No line of the function reads \<^verbatim>\<open>is_active\<close>.

  The last line sorts the array with a comparator that ignores its arguments and answers
  from \<^verbatim>\<open>Math.random\<close>. What order comes out depends on the engine; the model takes it as
  the parameter \<open>shuffle\<close>, and the theorems assume of it only that it permutes its
  argument (\<open>permutes\<close> below).
\<close>

definition prizeRarity :: "Prize \<Rightarrow> rarity" where
  "prizeRarity p =
     getRarityFromValue
       (parseFloat (or_string (Some (prize_value p)) (or_string (prize_redemption_value p) ''0'')))"

definition repetitions :: "rarity \<Rightarrow> nat" where
  "repetitions r = (case r of Common \<Rightarrow> 8 | Rare \<Rightarrow> 4 | Epic \<Rightarrow> 2 | Legendary \<Rightarrow> 1)"

definition makeItem :: "Prize \<Rightarrow> rarity \<Rightarrow> nat \<Rightarrow> RouletteItem" where
  "makeItem p r i =
     \<lparr> item_id = prize_id p @ ''-'' @ showNat i,
       item_name = (if prize_type p = ''MONEY'' then prize_name p
                    else or_string (prize_product_name p) (prize_name p)),
       item_image = or_string (Some (fixImageUrl (prize_image_url p))) ''/50_money.webp'',
       item_value = (if prize_type p = ''MONEY'' then prize_value p
                     else or_string (prize_redemption_value p) ''0''),
       item_type = prize_type p,
       isWinning = None,
       item_rarity = r \<rparr>"

definition pushPrize :: "RouletteItem list \<Rightarrow> Prize \<Rightarrow> RouletteItem list" where
  "pushPrize items p =
     (let r = prizeRarity p in items @ map (makeItem p r) [0 ..< repetitions r])"

definition generateRouletteItems ::
    "(RouletteItem list \<Rightarrow> RouletteItem list) \<Rightarrow> Prize list \<Rightarrow> RouletteItem list" where
  "generateRouletteItems shuffle ps = shuffle (foldl pushPrize [] ps)"

definition permutes :: "('a list \<Rightarrow> 'a list) \<Rightarrow> bool" where
  "permutes shuffle = (\<forall>xs. mset (shuffle xs) = mset xs)"

text \<open>
  The prize grid below the reel (lines 641-642) computes the rarity of a prize again, for
  its frame and label, from the value of its category: the monetary value for \<^verbatim>\<open>MONEY\<close>,
  the redemption value otherwise, a missing one read as \<^verbatim>\<open>'0'\<close>. This is the effective
  value of a prize, the one the cells carry (line 225).
\<close>

definition listedRarity :: "Prize \<Rightarrow> rarity" where
  "listedRarity p =
     getRarityFromValue
       (parseFloat (if prize_type p = ''MONEY'' then or_string (Some (prize_value p)) ''0''
                    else or_string (prize_redemption_value p) ''0''))"

section \<open>The outcome reconciler\<close>

text \<open>
  Lines 315-332 of \<^verbatim>\<open>handleOpenBox\<close>, under the comment \<^verbatim>\<open>Determinar item vencedor\<close>.
  \<open>matchesPrize\<close> is the predicate given to \<^verbatim>\<open>items.find\<close> (lines 319-322): it reads
  the prize's number from \<^verbatim>\<open>value || redemption_value || '0'\<close>, whatever the category.

  \<^verbatim>\<open>find\<close> returns a reference to the first matching object of the array, so the
  assignment \<^verbatim>\<open>targetItem.isWinning = true\<close> (line 325) changes the array that line 312
  handed to \<^verbatim>\<open>setRouletteItems\<close>. The objects of the array are distinct (one literal per
  \<^verbatim>\<open>push\<close>), so the model updates the array at the position found and returns the
  array with the target. \<open>commonItems\<close> is the filter of line 330. \<open>u\<close> is the double
  \<^verbatim>\<open>Math.random()\<close> returns at line 331; its product with the length is rounded to a
  double before \<^verbatim>\<open>Math.floor\<close> sees it.
\<close>

definition matchesPrize :: "GamePrize \<Rightarrow> RouletteItem \<Rightarrow> bool" where
  "matchesPrize w item =
     (item_type item = won_type w \<and>
      js_eq (parseFloat (item_value item))
            (parseFloat (or_string (Some (won_value w)) (or_string (won_redemption_value w) ''0''))))"

definition commonItems :: "RouletteItem list \<Rightarrow> RouletteItem list" where
  "commonItems items = filter (\<lambda>item. item_rarity item = Common) items"

definition determineTarget ::
    "GameResult \<Rightarrow> RouletteItem list \<Rightarrow> rat \<Rightarrow> RouletteItem list \<times> RouletteItem option" where
  "determineTarget result items u =
     (case (if isWinner result then prize result else None) of
        Some w \<Rightarrow>
          (let i = findIndex (matchesPrize w) items
           in if i < 0 then (items, None)
              else (let marked = items[nat i := (items ! nat i)\<lparr>isWinning := Some True\<rparr>]
                    in (marked, Some (marked ! nat i))))
      | None \<Rightarrow>
          (items,
           case js_at (commonItems items)
                  (Math_floor (js_times (Finite u) (js_length (commonItems items)))) of
             Some c \<Rightarrow> Some c
           | None \<Rightarrow> js_index items 0))"

section \<open>The page: state, closures and handlers\<close>

text \<open>
  \<^verbatim>\<open>RouletteBoxPage\<close> is a React function component. Each render runs the function
  body: it binds the state variables of lines 137-154 and the context values of lines
  130-133 as constants, and creates the handlers as closures over these constants. A
  setter changes the state React holds, which the next render will bind; it never changes
  a constant an existing closure has captured. A \<open>view\<close> is what one render binds. A
  handler therefore takes two arguments: the view its closure captured, and the page it
  acts on through the setters.

  The catalog fetch's \<^verbatim>\<open>loading\<close> and \<^verbatim>\<open>error\<close> (lines 138-139) only feed markup and
  are left out. The render sorts \<^verbatim>\<open>scratchCardData.prizes\<close> in place (line 634);
  \<open>prizes\<close> is the array as a handler finds it.
\<close>

record view =
  router_id :: "string option"
  isAuthenticated :: bool
  token :: "string option"
  scratchCardData :: "ScratchCardData option"
  gameState :: GameState
  rouletteItems :: "RouletteItem list"
  showConfetti :: bool
  hasWon :: bool
  totalWinnings :: number
  gameResult :: "GameResult option"
  playingGame :: bool
  winningItem :: "RouletteItem option"
  isSpinning :: bool
  spinDuration :: int
  finalRotation :: int

text \<open>
  A pending \<^verbatim>\<open>setTimeout\<close> callback: the one of line 368, with the view its closure
  captured, or the one of line 376.
\<close>

datatype timer_callback = FinishSpin view | HideConfetti

text \<open>
  The page between two events: the state React holds (\<open>current\<close>), the calls of
  \<^verbatim>\<open>handleOpenBox\<close> suspended at the \<^verbatim>\<open>await\<close> of line 303 while their request
  is in flight (each with its captured view), the pending timers with their due times in
  milliseconds, the clock, the error toasts shown so far and the number of balance
  refresh requests sent.
\<close>

record page =
  current :: view
  inflight :: "view list"
  timers :: "(nat \<times> timer_callback) list"
  now :: nat
  toasts :: "string list"
  balanceRefreshes :: nat

text \<open>What the \<^verbatim>\<open>fetch\<close> of line 242 and \<^verbatim>\<open>response.json()\<close> produce: an exception
  anywhere in the \<^verbatim>\<open>try\<close> block, or the parsed body. \<open>resp_result = None\<close> stands for
  a \<^verbatim>\<open>data.result\<close> that is null or not an object.\<close>

record PlayGameResponse =
  resp_success :: bool
  resp_message :: string
  resp_result :: "GameResult option"

datatype fetch_outcome = Threw | Replied PlayGameResponse

text \<open>The error strings of lines 238 and 262 hold Latin-1 letters, written by code.\<close>

definition msg_missing_auth :: string where
  "msg_missing_auth = ''Dados de autentica'' @ [char_of (231 :: nat), char_of (227 :: nat)] @ ''o ausentes.''"

definition msg_connection :: string where
  "msg_connection = ''Erro de conex'' @ [char_of (227 :: nat)] @ ''o com o servidor.''"

definition msg_default :: string where
  "msg_default = ''Erro ao abrir a box. Tente novamente.''"

text \<open>
  \<^verbatim>\<open>playGame\<close> (lines 237-266) after its \<^verbatim>\<open>await\<close>: the pair
  \<^verbatim>\<open>{result, errorMessage}\<close> it resolves to.
\<close>

definition playGame_settled :: "fetch_outcome \<Rightarrow> GameResult option \<times> string option" where
  "playGame_settled outcome =
     (case outcome of
        Threw \<Rightarrow> (None, Some msg_connection)
      | Replied d \<Rightarrow>
          if resp_success d then (resp_result d, None) else (None, Some (resp_message d)))"

text \<open>\<^verbatim>\<open>refreshUserBalance\<close> (lines 269-289): a request, unless the token is missing.\<close>

definition refreshUserBalance :: "view \<Rightarrow> page \<Rightarrow> page" where
  "refreshUserBalance cap s =
     (if falsy (token cap) then s else s\<lparr>balanceRefreshes := balanceRefreshes s + 1\<rparr>)"

text \<open>
  \<^verbatim>\<open>startRouletteSpin\<close> (lines 343-381). The callback it schedules closes over the
  render's \<^verbatim>\<open>gameResult\<close> and \<^verbatim>\<open>token\<close>, so the timer keeps \<open>cap\<close>.
\<close>

definition startRouletteSpin :: "view \<Rightarrow> RouletteItem option \<Rightarrow> RouletteItem list \<Rightarrow> page \<Rightarrow> page" where
  "startRouletteSpin cap targetItem items s =
     (case targetItem of
        None \<Rightarrow> s
      | Some target \<Rightarrow>
          if items = [] then s
          else
            (let targetIndex = findIndex (\<lambda>item. item_id item = item_id target) items;
                 itemWidth = 120;
                 containerWidth = 500;
                 totalWidth = int (length items) * itemWidth;
                 finalPosition = targetIndex * itemWidth - containerWidth div 2 + itemWidth div 2;
                 fullRotations = 3;
                 rotation = fullRotations * totalWidth + finalPosition;
                 duration = 4000
             in s\<lparr>current := (current s)\<lparr>isSpinning := True, finalRotation := rotation,
                                              spinDuration := int duration\<rparr>,
                  timers := timers s @ [(now s + duration, FinishSpin cap)]\<rparr>))"

text \<open>The callback of lines 368-380, run when its timer fires.\<close>

definition finishSpin :: "view \<Rightarrow> page \<Rightarrow> page" where
  "finishSpin cap s =
     (let s1 = s\<lparr>current := (current s)\<lparr>isSpinning := False, gameState := completed\<rparr>\<rparr>;
          s2 = (case gameResult cap of
                  None \<Rightarrow> s1
                | Some g \<Rightarrow>
                    if isWinner g then
                      s1\<lparr>current := (current s1)\<lparr>hasWon := True,
                                                      totalWinnings := parseFloat (amountWon g),
                                                      showConfetti := True\<rparr>,
                         timers := timers s1 @ [(now s1 + 5000, HideConfetti)]\<rparr>
                    else s1)
      in refreshUserBalance cap s2)"

text \<open>
  \<^verbatim>\<open>handleOpenBox\<close> after the \<^verbatim>\<open>await\<close>, with a result (lines 308-335). A captured
  catalog that is null would raise at line 311 and end the call there.
\<close>

definition handleOpenBox_result ::
    "view \<Rightarrow> GameResult \<Rightarrow> (RouletteItem list \<Rightarrow> RouletteItem list) \<Rightarrow> rat \<Rightarrow> page \<Rightarrow> page" where
  "handleOpenBox_result cap result shuffle u s =
     (let s1 = s\<lparr>current := (current s)\<lparr>gameResult := Some result\<rparr>\<rparr>
      in case scratchCardData cap of
           None \<Rightarrow> s1
         | Some sc \<Rightarrow>
             (let (items, targetItem) =
                    determineTarget result (generateRouletteItems shuffle (prizes sc)) u;
                  s2 = s1\<lparr>current := (current s1)\<lparr>rouletteItems := items\<rparr>\<rparr>;
                  s3 = (if isWinner result \<and> prize result \<noteq> None \<and> targetItem \<noteq> None
                        then s2\<lparr>current := (current s2)\<lparr>winningItem := targetItem\<rparr>\<rparr>
                        else s2);
                  s4 = s3\<lparr>current := (current s3)\<lparr>gameState := spinning\<rparr>\<rparr>
              in startRouletteSpin cap targetItem items s4))"

text \<open>\<^verbatim>\<open>handleOpenBox\<close> after the \<^verbatim>\<open>await\<close>, without a result (lines 337-338).\<close>

definition handleOpenBox_failed :: "string option \<Rightarrow> page \<Rightarrow> page" where
  "handleOpenBox_failed errorMessage s =
     s\<lparr>current := (current s)\<lparr>gameState := idle\<rparr>,
       toasts := toasts s @ [or_string errorMessage msg_default]\<rparr>"

text \<open>
  \<^verbatim>\<open>handleOpenBox\<close> resumed when \<^verbatim>\<open>playGame\<close> settles: the \<^verbatim>\<open>finally\<close> of line
  264, then the branch of line 307.
\<close>

definition handleOpenBox_resume ::
    "view \<Rightarrow> fetch_outcome \<Rightarrow> (RouletteItem list \<Rightarrow> RouletteItem list) \<Rightarrow> rat \<Rightarrow> page \<Rightarrow> page" where
  "handleOpenBox_resume cap outcome shuffle u s =
     (let s1 = s\<lparr>current := (current s)\<lparr>playingGame := False\<rparr>\<rparr>
      in case playGame_settled outcome of
           (Some result, _) \<Rightarrow> handleOpenBox_result cap result shuffle u s1
         | (None, errorMessage) \<Rightarrow> handleOpenBox_failed errorMessage s1)"

text \<open>
  \<^verbatim>\<open>handleOpenBox\<close> up to the \<^verbatim>\<open>await\<close> (lines 292-303, with lines 238-251 of
  \<^verbatim>\<open>playGame\<close>). Without a route id or a token \<^verbatim>\<open>playGame\<close> resolves at once and the
  call goes on in the same task; otherwise the request leaves and the call is suspended.
\<close>

definition handleOpenBox :: "view \<Rightarrow> page \<Rightarrow> page" where
  "handleOpenBox cap s =
     (if \<not> isAuthenticated cap \<or> playingGame cap \<or> scratchCardData cap = None then s
      else
        (let s1 = s\<lparr>current := (current s)\<lparr>gameState := loading, showConfetti := False,
                                                hasWon := False, totalWinnings := Finite 0,
                                                gameResult := None, winningItem := None\<rparr>\<rparr>
         in if falsy (router_id cap) \<or> falsy (Some (or_string (token cap) []))
            then handleOpenBox_failed (Some msg_missing_auth) s1
            else s1\<lparr>current := (current s1)\<lparr>playingGame := True\<rparr>,
                    inflight := inflight s1 @ [cap]\<rparr>))"

text \<open>\<^verbatim>\<open>handlePlayAgain\<close> (lines 384-399): it calls the \<^verbatim>\<open>handleOpenBox\<close> of its own render.\<close>

definition handlePlayAgain :: "view \<Rightarrow> page \<Rightarrow> page" where
  "handlePlayAgain cap s =
     (if \<not> isAuthenticated cap \<or> playingGame cap \<or> scratchCardData cap = None then s
      else handleOpenBox cap
             (s\<lparr>current := (current s)\<lparr>rouletteItems := [], showConfetti := False,
                                           hasWon := False, totalWinnings := Finite 0,
                                           gameResult := None, winningItem := None,
                                           isSpinning := False, finalRotation := 0\<rparr>\<rparr>))"

section \<open>Events\<close>

text \<open>
  What can happen to the page. A click reaches a handler only through a button the
  current render shows and has not disabled (lines 444, 484-486 for \<^verbatim>\<open>handleOpenBox\<close>;
  lines 569, 601, 609-611 for \<^verbatim>\<open>handlePlayAgain\<close>), and the handler it reaches is the
  closure of that render. The play request settles with an outcome, a shuffle and a random
  number for lines 233 and 331. Time passes; a timer fires when it is due, possibly late.
  The catalog arrives (line 175) and the authentication context changes; the route id
  stays as mounted. The inventory button of line 603 leaves the page and is not an event.
  An event that cannot happen in a page has no successor.
\<close>

datatype event =
    ClickOpenBox
  | ClickPlayAgain
  | PlayReturns fetch_outcome "RouletteItem list \<Rightarrow> RouletteItem list" rat
  | Elapse nat
  | TimerFires nat
  | CatalogLoaded ScratchCardData
  | AuthChanged bool "string option"

definition wonProduct :: "view \<Rightarrow> bool" where
  "wonProduct v =
     (case gameResult v of
        None \<Rightarrow> False
      | Some g \<Rightarrow> (case prize g of None \<Rightarrow> False | Some w \<Rightarrow> won_type w = ''PRODUCT''))"

definition openBoxButton :: "view \<Rightarrow> bool" where
  "openBoxButton v = (gameState v = idle \<and> isAuthenticated v \<and> scratchCardData v \<noteq> None)"

definition playAgainButton :: "view \<Rightarrow> bool" where
  "playAgainButton v =
     (gameState v = completed \<and> \<not> (hasWon v \<and> wonProduct v) \<and>
      isAuthenticated v \<and> scratchCardData v \<noteq> None)"

definition runTimer :: "timer_callback \<Rightarrow> page \<Rightarrow> page" where
  "runTimer cb s =
     (case cb of
        FinishSpin cap \<Rightarrow> finishSpin cap s
      | HideConfetti \<Rightarrow> s\<lparr>current := (current s)\<lparr>showConfetti := False\<rparr>\<rparr>)"

definition step :: "page \<Rightarrow> event \<Rightarrow> page option" where
  "step s e =
     (case e of
        ClickOpenBox \<Rightarrow>
          if openBoxButton (current s) then Some (handleOpenBox (current s) s) else None
      | ClickPlayAgain \<Rightarrow>
          if playAgainButton (current s) then Some (handlePlayAgain (current s) s) else None
      | PlayReturns outcome shuffle u \<Rightarrow>
          (case inflight s of
             [] \<Rightarrow> None
           | cap # rest \<Rightarrow> Some (handleOpenBox_resume cap outcome shuffle u (s\<lparr>inflight := rest\<rparr>)))
      | Elapse d \<Rightarrow> Some (s\<lparr>now := now s + d\<rparr>)
      | TimerFires k \<Rightarrow>
          if k < length (timers s) \<and> fst (timers s ! k) \<le> now s
          then Some (runTimer (snd (timers s ! k))
                       (s\<lparr>timers := take k (timers s) @ drop (Suc k) (timers s)\<rparr>))
          else None
      | CatalogLoaded sc \<Rightarrow> Some (s\<lparr>current := (current s)\<lparr>scratchCardData := Some sc\<rparr>\<rparr>)
      | AuthChanged a t \<Rightarrow> Some (s\<lparr>current := (current s)\<lparr>isAuthenticated := a, token := t\<rparr>\<rparr>))"

fun run :: "page \<Rightarrow> event list \<Rightarrow> page option" where
  "run s [] = Some s"
| "run s (e # es) = (case step s e of None \<Rightarrow> None | Some s' \<Rightarrow> run s' es)"

text \<open>The page as mounted (the initial values of lines 137-154), for a given context.\<close>

definition mounted :: "string option \<Rightarrow> bool \<Rightarrow> string option \<Rightarrow> page" where
  "mounted rid auth tok =
     \<lparr> current = \<lparr> router_id = rid, isAuthenticated = auth, token = tok,
                   scratchCardData = None, gameState = idle, rouletteItems = [],
                   showConfetti = False, hasWon = False, totalWinnings = Finite 0,
                   gameResult = None, playingGame = False, winningItem = None,
                   isSpinning = False, spinDuration = 0, finalRotation = 0 \<rparr>,
       inflight = [], timers = [], now = 0, toasts = [], balanceRefreshes = 0 \<rparr>"

text \<open>
  What the theorems assume of the randomness an event carries: the sort of line 233
  permutes the array, and \<^verbatim>\<open>Math.random()\<close> lies in \<open>[0, 1)\<close>.
\<close>

definition fair :: "event \<Rightarrow> bool" where
  "fair e = (case e of PlayReturns _ shuffle u \<Rightarrow> permutes shuffle \<and> 0 \<le> u \<and> u < 1 | _ \<Rightarrow> True)"

section \<open>Predicates on pages\<close>

text \<open>
  \<open>fresh\<close>: no per-spin data is set (no reel, no landing cell, no win data, no
  animation and no scroll target). \<open>unflagged\<close>: no cell of the reel carries the winning flag and no winning
  item is recorded. \<open>consistent\<close>: at most one play request is in flight, and only while
  loading; at most one spin-ending timer is pending, and only while spinning; an idle or
  loading page is fresh.
\<close>

definition is_finish :: "timer_callback \<Rightarrow> bool" where
  "is_finish cb = (case cb of FinishSpin _ \<Rightarrow> True | HideConfetti \<Rightarrow> False)"

definition finishTimers :: "page \<Rightarrow> (nat \<times> timer_callback) list" where
  "finishTimers s = filter (\<lambda>t. is_finish (snd t)) (timers s)"

definition fresh :: "view \<Rightarrow> bool" where
  "fresh v =
     (rouletteItems v = [] \<and> \<not> isSpinning v \<and> finalRotation v = 0 \<and> winningItem v = None \<and>
      \<not> hasWon v \<and> totalWinnings v = Finite 0 \<and> gameResult v = None)"

definition unflagged :: "view \<Rightarrow> bool" where
  "unflagged v =
     (winningItem v = None \<and> list_all (\<lambda>c. isWinning c = None) (rouletteItems v))"

definition winnerWithPrize :: "view \<Rightarrow> bool" where
  "winnerWithPrize v =
     (case gameResult v of None \<Rightarrow> False | Some r \<Rightarrow> isWinner r \<and> prize r \<noteq> None)"

definition consistent :: "page \<Rightarrow> bool" where
  "consistent s =
     (length (inflight s) \<le> 1 \<and>
      list_all (\<lambda>cap. scratchCardData cap \<noteq> None) (inflight s) \<and>
      (inflight s = [] \<or> gameState (current s) = loading) \<and>
      playingGame (current s) = (inflight s \<noteq> []) \<and>
      length (finishTimers s) \<le> 1 \<and>
      (finishTimers s = [] \<or> gameState (current s) = spinning) \<and>
      (gameState (current s) = spinning \<or> gameState (current s) = completed \<or> fresh (current s)))"

text \<open>A flag or a recorded winning item is there only under a winning result with a prize.\<close>

definition flagsJustified :: "page \<Rightarrow> bool" where
  "flagsJustified s = (unflagged (current s) \<or> winnerWithPrize (current s))"

section \<open>Concrete inputs\<close>

text \<open>
  Builders for the concrete catalogs, results and replies the closed theorems evaluate
  the page on, and the category-appropriate reading of a won prize that the specification
  words: the monetary value for \<^verbatim>\<open>MONEY\<close>, the redemption value otherwise (what line 225
  does for a catalog prize).
\<close>

definition ex_prize :: "string \<Rightarrow> string \<Rightarrow> string \<Rightarrow> string option \<Rightarrow> bool \<Rightarrow> Prize" where
  "ex_prize i t v r a =
     \<lparr> prize_id = i, prize_name = ''Prize '' @ i, prize_type = t, prize_value = v,
       prize_product_name = None, prize_redemption_value = r, prize_image_url = [],
       prize_is_active = a \<rparr>"

definition ex_won :: "string \<Rightarrow> string \<Rightarrow> string \<Rightarrow> string option \<Rightarrow> GamePrize" where
  "ex_won i t v r =
     \<lparr> won_id = i, won_name = ''Prize '' @ i, won_type = t, won_value = v,
       won_product_name = None, won_redemption_value = r \<rparr>"

definition ex_result :: "bool \<Rightarrow> string \<Rightarrow> GamePrize option \<Rightarrow> GameResult" where
  "ex_result w a p = \<lparr> isWinner = w, amountWon = a, prize = p \<rparr>"

definition ex_reply :: "GameResult \<Rightarrow> fetch_outcome" where
  "ex_reply g = Replied \<lparr> resp_success = True, resp_message = ''ok'', resp_result = Some g \<rparr>"

text \<open>
  A business error: the server answers with \<^verbatim>\<open>success\<close> false and a message. The reply
  carries a result all the same, which \<^verbatim>\<open>playGame\<close> must not read.
\<close>

definition ex_refused :: fetch_outcome where
  "ex_refused =
     Replied \<lparr> resp_success = False, resp_message = ''Saldo insuficiente'',
               resp_result = Some (ex_result True ''5'' (Some (ex_won ''a'' ''MONEY'' ''5'' None))) \<rparr>"

definition ex_card :: "Prize list \<Rightarrow> ScratchCardData" where
  "ex_card ps = \<lparr> card_name = ''Box'', card_price = ''1.00'', prizes = ps \<rparr>"

definition ex_page :: page where
  "ex_page = mounted (Some ''7'') True (Some ''token'')"

definition ex_losing_spin :: "event list" where
  "ex_losing_spin =
     [CatalogLoaded (ex_card [ex_prize ''a'' ''MONEY'' ''5'' None True]),
      ClickOpenBox,
      PlayReturns (ex_reply (ex_result False ''0'' None)) rev (1 / 2)]"

definition ex_catalog_only :: "event list" where
  "ex_catalog_only = [CatalogLoaded (ex_card [ex_prize ''a'' ''MONEY'' ''5'' None True])]"

text \<open>
  A double of \<open>[0, 1)\<close> whose product with 24 is below 17 and rounds to 17.
\<close>

definition ex_random :: rat where
  "ex_random = 3190049736054101 / 2 ^ 52"

definition spec_prize_value :: "GamePrize \<Rightarrow> string" where
  "spec_prize_value w =
     (if won_type w = ''MONEY'' then won_value w else or_string (won_redemption_value w) ''0'')"

section \<open>Theorems\<close>

subsection \<open>Rounding to a double\<close>

text \<open>
  What the theorems need of \<open>toDouble\<close>: \<open>binade\<close> is the binary exponent, rounding
  moves a rational by at most half a spacing, never across an integer, and a double below
  1 is at most \<open>1 - 2\<^sup>-\<^sup>5\<^sup>3\<close>. So the product of a double of \<open>[0, 1)\<close> with a length
  \<open>n\<close> rounds to a double below \<open>n\<close>, whose floor is the floor of the exact product or
  the next integer.
\<close>

lemma pow2_powi: "pow2 e = 2 powi e"
  by (simp add: pow2_def power_int_def field_simps)

lemma pow2_pos: "0 < pow2 e"
  by (simp add: pow2_powi)

lemma pow2_add: "pow2 (a + b) = pow2 a * pow2 b"
  by (simp add: pow2_powi power_int_add)

lemma pow2_diff: "pow2 (a - b) = pow2 a / pow2 b"
  by (simp add: pow2_powi power_int_diff)

lemma pow2_minus: "pow2 (- a) = 1 / pow2 a"
  by (simp add: pow2_powi power_int_minus_divide)

lemma pow2_mono: "a \<le> b \<Longrightarrow> pow2 a \<le> pow2 b"
  unfolding pow2_powi by (rule power_int_increasing) simp_all

lemma pow2_strict_mono: "a < b \<Longrightarrow> pow2 a < pow2 b"
  unfolding pow2_powi by (rule power_int_strict_increasing) simp_all

lemma pow2_less_iff: "pow2 a < pow2 b \<longleftrightarrow> a < b"
  using pow2_strict_mono [of a b] pow2_mono [of b a] by (auto simp: not_less [symmetric])

lemma pow2_le_iff: "pow2 a \<le> pow2 b \<longleftrightarrow> a \<le> b"
  using pow2_less_iff [of b a] by (auto simp: not_less [symmetric])

lemma pow2_nat: "0 \<le> e \<Longrightarrow> pow2 e = of_nat (2 ^ nat e)"
  by (simp add: pow2_def)

lemma binade_bounds:
  assumes "0 < a"
  shows "pow2 (binade a) \<le> a" and "a < pow2 (binade a + 1)"
proof -
  obtain p q where pq: "quotient_of a = (p, q)"
    by (cases "quotient_of a")
  then have q: "0 < q" and a: "a = of_int p / of_int q"
    by (auto dest: quotient_of_denom_pos quotient_of_div)
  with assms have p: "0 < p"
    by (simp add: zero_less_divide_iff)
  define k where "k = bitlen p - bitlen q"
  have bp: "1 \<le> bitlen p"
    using p by (auto simp: bitlen_alt_def)
  have bq: "1 \<le> bitlen q"
    using q by (auto simp: bitlen_alt_def)
  have int_pow: "pow2 e = of_int (2 ^ nat e)" if "0 \<le> e" for e
    using that by (simp add: pow2_def)
  from bitlen_bounds [OF p] have "2 ^ nat (bitlen p - 1) \<le> p" and "p < 2 ^ nat (bitlen p)"
    by blast+
  then have "(of_int (2 ^ nat (bitlen p - 1)) :: rat) \<le> of_int p"
    and "(of_int p :: rat) < of_int (2 ^ nat (bitlen p))"
    by (simp_all only: of_int_le_iff of_int_less_iff)
  then have p_lo: "pow2 (bitlen p - 1) \<le> of_int p" and p_hi: "(of_int p :: rat) < pow2 (bitlen p)"
    using bp by (simp_all add: int_pow)
  from bitlen_bounds [OF q] have "2 ^ nat (bitlen q - 1) \<le> q" and "q < 2 ^ nat (bitlen q)"
    by blast+
  then have "(of_int (2 ^ nat (bitlen q - 1)) :: rat) \<le> of_int q"
    and "(of_int q :: rat) < of_int (2 ^ nat (bitlen q))"
    by (simp_all only: of_int_le_iff of_int_less_iff)
  then have q_lo: "pow2 (bitlen q - 1) \<le> of_int q" and q_hi: "(of_int q :: rat) < pow2 (bitlen q)"
    using bq by (simp_all add: int_pow)
  have qpos: "(0 :: rat) < of_int q"
    using q by simp
  have lo: "pow2 (k - 1) < a"
  proof -
    have "pow2 (k - 1) * of_int q < pow2 (k - 1) * pow2 (bitlen q)"
      using q_hi pow2_pos by (simp add: mult_strict_left_mono)
    also have "\<dots> = pow2 (bitlen p - 1)"
      by (simp add: pow2_add [symmetric] k_def)
    also have "\<dots> \<le> of_int p"
      by (rule p_lo)
    finally show ?thesis
      using qpos by (simp add: a pos_less_divide_eq)
  qed
  have hi: "a < pow2 (k + 1)"
  proof -
    have "of_int p < pow2 (bitlen p)"
      by (rule p_hi)
    also have "\<dots> = pow2 (k + 1) * pow2 (bitlen q - 1)"
      by (simp add: pow2_add [symmetric] k_def)
    also have "\<dots> \<le> pow2 (k + 1) * of_int q"
      using q_lo pow2_pos [of "k + 1"] by (simp add: mult_left_mono)
    finally show ?thesis
      using qpos by (simp add: a pos_divide_less_eq)
  qed
  have b: "binade a = (if pow2 k \<le> a then k else k - 1)"
    by (simp add: binade_def pq k_def Let_def)
  show "pow2 (binade a) \<le> a"
    using lo by (simp add: b)
  show "a < pow2 (binade a + 1)"
    using hi by (simp add: b)
qed

lemma roundHalfEven_near:
  "of_int (roundHalfEven x) \<le> x + 1 / 2" "x - 1 / 2 \<le> of_int (roundHalfEven x)"
  unfolding roundHalfEven_def Let_def
  by (auto simp: not_less) linarith+

lemma roundHalfEven_ge_int: "of_int K \<le> x \<Longrightarrow> K \<le> roundHalfEven x"
proof -
  assume "of_int K \<le> x"
  then have "K \<le> \<lfloor>x\<rfloor>" by (simp add: le_floor_iff)
  then show ?thesis
    by (auto simp: roundHalfEven_def Let_def)
qed

lemma roundHalfEven_le_int: "x \<le> of_int K \<Longrightarrow> roundHalfEven x \<le> K"
proof -
  assume x: "x \<le> of_int K"
  then have f: "\<lfloor>x\<rfloor> \<le> K" by (simp add: floor_le_iff)
  show ?thesis
  proof (cases "x = of_int \<lfloor>x\<rfloor>")
    case True
    then have "x - of_int \<lfloor>x\<rfloor> = 0" by simp
    then show ?thesis using f by (simp add: roundHalfEven_def Let_def)
  next
    case False
    then have "of_int \<lfloor>x\<rfloor> < x"
      unfolding less_le by (auto simp: of_int_floor_le)
    with x have "(of_int \<lfloor>x\<rfloor> :: rat) < of_int K" by linarith
    then have "\<lfloor>x\<rfloor> < K" by simp
    then show ?thesis by (auto simp: roundHalfEven_def Let_def)
  qed
qed

lemma toDouble_pos:
  assumes "0 < a" and "a < pow2 1023"
  shows "toDouble a = Finite (of_int (roundHalfEven (a / ulpOf a)) * ulpOf a)"
proof -
  from binade_bounds(1) [OF assms(1)] assms(2) have "pow2 (binade a) < pow2 1023"
    by simp
  then have "binade a < 1023"
    by (simp add: pow2_less_iff)
  then have "\<not> 1023 \<le> max (binade a) (- 1022)"
    by simp
  with assms(1) show ?thesis
    by (simp add: toDouble_def ulpOf_def Let_def)
qed

lemma ulpOf_half:
  assumes "0 < a"
  shows "ulpOf a / 2 \<le> a / 2 ^ 53 \<or> ulpOf a / 2 = pow2 (- 1075)"
proof (cases "- 1022 \<le> binade a")
  case True
  then have "ulpOf a = pow2 (binade a) / 2 ^ 52"
    by (simp add: ulpOf_def max_def pow2_diff) (simp add: pow2_def)
  with binade_bounds(1) [OF assms] show ?thesis
    by (simp add: field_simps)
next
  case False
  then have "ulpOf a = pow2 (- 1074)"
    by (simp add: ulpOf_def max_def)
  then show ?thesis
    by (simp add: pow2_def)
qed

lemma ulpOf_inverse_int:
  assumes "0 < a" and "a < 2 ^ 52"
  shows "\<exists>j. 1 / ulpOf a = of_nat (2 ^ j)"
proof -
  from binade_bounds(1) [OF assms(1)] assms(2) have "pow2 (binade a) < pow2 52"
    by (simp add: pow2_def)
  then have "binade a < 52"
    by (simp add: pow2_less_iff)
  then have e: "max (binade a) (- 1022) - 52 \<le> 0"
    by simp
  have "1 / ulpOf a = pow2 (- (max (binade a) (- 1022) - 52))"
    by (simp only: ulpOf_def pow2_minus)
  also have "\<dots> = of_nat (2 ^ nat (- (max (binade a) (- 1022) - 52)))"
    using e by (intro pow2_nat) simp
  finally show ?thesis by blast
qed

lemma toDouble_bracket:
  assumes "0 < a" and "a < 2 ^ 52"
  obtains v where "toDouble a = Finite v"
    and "\<And>K. of_int K \<le> a \<Longrightarrow> of_int K \<le> v"
    and "\<And>K. a \<le> of_int K \<Longrightarrow> v \<le> of_int K"
    and "\<And>K. a + ulpOf a / 2 < of_int K \<Longrightarrow> v < of_int K"
proof -
  define w where "w = ulpOf a"
  define v where "v = of_int (roundHalfEven (a / w)) * w"
  have wpos: "0 < w"
    by (simp add: w_def ulpOf_def pow2_pos)
  from ulpOf_inverse_int [OF assms] obtain j where j: "1 / w = of_nat (2 ^ j)"
    unfolding w_def by blast
  then have inv: "1 / w = of_int (2 ^ j)"
    by simp
  have "a < pow2 1023"
    using assms(2) by (simp add: pow2_def)
  from toDouble_pos [OF assms(1) this] have td: "toDouble a = Finite v"
    by (simp add: v_def w_def)
  have scaled: "of_int K / w = of_int (K * 2 ^ j)" for K
  proof -
    have "of_int K / w = of_int K * (1 / w)"
      by simp
    also have "\<dots> = of_int K * of_int (2 ^ j)"
      by (simp only: inv)
    finally show ?thesis by simp
  qed
  have ge: "of_int K \<le> v" if "of_int K \<le> a" for K
  proof -
    from that wpos have "of_int K / w \<le> a / w"
      by (simp add: divide_right_mono)
    then have "of_int (K * 2 ^ j) \<le> a / w"
      by (simp only: scaled)
    then have "K * 2 ^ j \<le> roundHalfEven (a / w)"
      by (rule roundHalfEven_ge_int)
    then have "(of_int (K * 2 ^ j) :: rat) \<le> of_int (roundHalfEven (a / w))"
      by (simp only: of_int_le_iff)
    then have "of_int K / w \<le> of_int (roundHalfEven (a / w))"
      by (simp only: scaled)
    with wpos show ?thesis
      by (simp add: v_def pos_divide_le_eq)
  qed
  have le: "v \<le> of_int K" if "a \<le> of_int K" for K
  proof -
    from that wpos have "a / w \<le> of_int K / w"
      by (simp add: divide_right_mono)
    then have "a / w \<le> of_int (K * 2 ^ j)"
      by (simp only: scaled)
    then have "roundHalfEven (a / w) \<le> K * 2 ^ j"
      by (rule roundHalfEven_le_int)
    then have "(of_int (roundHalfEven (a / w)) :: rat) \<le> of_int (K * 2 ^ j)"
      by (simp only: of_int_le_iff)
    then have "of_int (roundHalfEven (a / w)) \<le> of_int K / w"
      by (simp only: scaled)
    with wpos show ?thesis
      by (simp add: v_def pos_le_divide_eq)
  qed
  have lt: "v < of_int K" if "a + w / 2 < of_int K" for K
  proof -
    from that wpos have "(a + w / 2) / w < of_int K / w"
      by (simp add: divide_strict_right_mono)
    then have "a / w + 1 / 2 < of_int (K * 2 ^ j)"
      using wpos by (simp add: scaled add_divide_distrib)
    with roundHalfEven_near(1) [of "a / w"]
    have "(of_int (roundHalfEven (a / w)) :: rat) < of_int (K * 2 ^ j)"
      by linarith
    then have "of_int (roundHalfEven (a / w)) < of_int K / w"
      by (simp only: scaled)
    with wpos show ?thesis
      by (simp add: v_def pos_less_divide_eq)
  qed
  from td ge le lt show ?thesis
    unfolding w_def by (rule that)
qed

lemma unitDouble_le:
  assumes "unitDouble u"
  shows "u \<le> 1 - 1 / 2 ^ 53"
proof (cases "u < 1 / 2")
  case True
  then show ?thesis by simp
next
  case False
  from assms have u: "0 \<le> u" "u < 1" and fx: "toDouble u = Finite u"
    by (simp_all add: unitDouble_def)
  from False have pos: "0 < u" and half: "pow2 (- 1) \<le> u"
    by (simp_all add: pow2_def)
  from binade_bounds [OF pos] u(2) half have "pow2 (binade u) < pow2 0" "pow2 (- 1) < pow2 (binade u + 1)"
    by (simp_all add: pow2_def)
  then have "binade u = - 1"
    by (simp add: pow2_less_iff)
  then have w: "ulpOf u = 1 / 2 ^ 53"
    by (simp add: ulpOf_def pow2_def)
  have "u < pow2 1023"
    using u(2) by (simp add: pow2_def)
  from toDouble_pos [OF pos this] fx w
  have eq: "u = of_int (roundHalfEven (u * 2 ^ 53)) / 2 ^ 53"
    by simp
  define m where "m = roundHalfEven (u * 2 ^ 53)"
  from eq u(2) have "(of_int m :: rat) < of_int (2 ^ 53)"
    by (simp add: m_def field_simps)
  then have "m < 2 ^ 53"
    by (simp only: of_int_less_iff)
  then have "m \<le> 2 ^ 53 - 1"
    by simp
  then have "(of_int m :: rat) \<le> of_int (2 ^ 53 - 1)"
    by (simp only: of_int_le_iff)
  then have "(of_int m :: rat) / 2 ^ 53 \<le> (2 ^ 53 - 1) / 2 ^ 53"
    by (simp add: divide_right_mono)
  with eq show ?thesis
    by (simp add: m_def diff_divide_distrib)
qed

lemma random_index:
  assumes "unitDouble u" and "0 < n" and "n < 2 ^ 32"
  obtains v where "js_times (Finite u) (Finite (of_nat n)) = Finite v"
    and "0 \<le> v" and "v < of_nat n"
    and "\<lfloor>u * of_nat n\<rfloor> \<le> \<lfloor>v\<rfloor>" and "\<lfloor>v\<rfloor> \<le> \<lfloor>u * of_nat n\<rfloor> + 1"
proof (cases "u = 0")
  case True
  have "js_times (Finite u) (Finite (of_nat n)) = Finite 0"
    by (simp add: True js_times_def toDouble_def)
  moreover have "(0 :: rat) \<le> 0" "(0 :: rat) < of_nat n"
    "\<lfloor>u * of_nat n\<rfloor> \<le> \<lfloor>0 :: rat\<rfloor>" "\<lfloor>0 :: rat\<rfloor> \<le> \<lfloor>u * of_nat n\<rfloor> + 1"
    using assms(2) by (simp_all add: True)
  ultimately show ?thesis
    by (rule that)
next
  case False
  define a where "a = u * of_nat n"
  from assms(1) False have u: "0 < u" "u < 1"
    by (simp_all add: unitDouble_def)
  have npos: "(0 :: rat) < of_nat n"
    using assms(2) by simp
  have apos: "0 < a"
    using u(1) npos by (simp add: a_def)
  have an: "a < of_nat n"
    using u(2) npos by (simp add: a_def)
  have "(of_nat n :: rat) < of_nat (2 ^ 32)"
    using assms(3) by (simp only: of_nat_less_iff)
  with an have small: "a < 2 ^ 52"
    by simp
  have gap: "of_nat n / 2 ^ 53 \<le> of_nat n - a"
  proof -
    have "a \<le> (1 - 1 / 2 ^ 53) * of_nat n"
      unfolding a_def using unitDouble_le [OF assms(1)] npos by (intro mult_right_mono) simp_all
    then show ?thesis by (simp add: algebra_simps)
  qed
  have half: "a + ulpOf a / 2 < of_nat n"
  proof -
    from ulpOf_half [OF apos] have "ulpOf a / 2 < of_nat n / 2 ^ 53"
    proof
      assume "ulpOf a / 2 \<le> a / 2 ^ 53"
      also have "\<dots> < of_nat n / 2 ^ 53"
        using an by (simp add: divide_strict_right_mono)
      finally show ?thesis .
    next
      assume "ulpOf a / 2 = pow2 (- 1075)"
      also have "\<dots> < pow2 (- 53)"
        by (rule pow2_strict_mono) simp
      also have "\<dots> = 1 / 2 ^ 53"
        by (simp add: pow2_def)
      also have "\<dots> \<le> of_nat n / 2 ^ 53"
        using assms(2) by (simp add: divide_right_mono)
      finally show ?thesis .
    qed
    with gap show ?thesis by linarith
  qed
  from toDouble_bracket [OF apos small] obtain v where v: "toDouble a = Finite v"
    and ge: "\<And>K. of_int K \<le> a \<Longrightarrow> of_int K \<le> v"
    and le: "\<And>K. a \<le> of_int K \<Longrightarrow> v \<le> of_int K"
    and lt: "\<And>K. a + ulpOf a / 2 < of_int K \<Longrightarrow> v < of_int K"
    by blast
  have 1: "js_times (Finite u) (Finite (of_nat n)) = Finite v"
    by (simp add: js_times_def v [unfolded a_def])
  have 2: "0 \<le> v"
    using ge [of 0] apos by simp
  have 3: "v < of_nat n"
    using lt [of "int n"] half by simp
  have 4: "\<lfloor>a\<rfloor> \<le> \<lfloor>v\<rfloor>"
    using ge [of "\<lfloor>a\<rfloor>"] by (simp add: le_floor_iff)
  have "a \<le> of_int (\<lfloor>a\<rfloor> + 1)"
    using floor_correct [of a] by simp
  from le [OF this] have 5: "\<lfloor>v\<rfloor> \<le> \<lfloor>a\<rfloor> + 1"
    by (simp add: floor_le_iff)
  from 1 2 3 4 5 show ?thesis
    unfolding a_def by (rule that)
qed

lemma random_index_near:
  assumes "unitDouble u" and "0 < n" and "n < 2 ^ 32"
    and "js_times (Finite u) (Finite (of_nat n)) = Finite v"
    and "u * of_nat n + 1 / 2 ^ 21 \<le> of_int K"
  shows "v < of_int K"
proof (cases "u = 0")
  case True
  with assms(4) have "v = 0"
    by (simp add: js_times_def toDouble_def)
  moreover from True assms(5) have "(0 :: rat) < of_int K"
    by simp
  ultimately show ?thesis by simp
next
  case False
  define a where "a = u * of_nat n"
  from assms(1) False have u: "0 < u" "u < 1"
    by (simp_all add: unitDouble_def)
  have npos: "(0 :: rat) < of_nat n"
    using assms(2) by simp
  have apos: "0 < a"
    using u(1) npos by (simp add: a_def)
  have an: "a < of_nat n"
    using u(2) npos by (simp add: a_def)
  have "(of_nat n :: rat) < of_nat (2 ^ 32)"
    using assms(3) by (simp only: of_nat_less_iff)
  with an have a32: "a < 2 ^ 32"
    by simp
  then have small: "a < 2 ^ 52"
    by simp
  have c: "(2 ^ 32 :: rat) / 2 ^ 53 = 1 / 2 ^ 21"
    by simp
  from ulpOf_half [OF apos] have h: "ulpOf a / 2 < 1 / 2 ^ 21"
  proof
    assume "ulpOf a / 2 \<le> a / 2 ^ 53"
    also have "\<dots> < 2 ^ 32 / 2 ^ 53"
      using a32 by (simp add: divide_strict_right_mono)
    finally show ?thesis
      by (simp only: c)
  next
    assume "ulpOf a / 2 = pow2 (- 1075)"
    also have "\<dots> < pow2 (- 21)"
      by (rule pow2_strict_mono) simp
    also have "\<dots> = 1 / 2 ^ 21"
      by (simp add: pow2_def)
    finally show ?thesis .
  qed
  from assms(5) have "a + 1 / 2 ^ 21 \<le> of_int K"
    by (simp only: a_def)
  with h have k: "a + ulpOf a / 2 < of_int K"
    by linarith
  from toDouble_bracket [OF apos small] obtain w where w: "toDouble a = Finite w"
    and ge: "\<And>K. of_int K \<le> a \<Longrightarrow> of_int K \<le> w"
    and le: "\<And>K. a \<le> of_int K \<Longrightarrow> w \<le> of_int K"
    and lt: "\<And>K. a + ulpOf a / 2 < of_int K \<Longrightarrow> w < of_int K"
    by blast
  from assms(4) have "toDouble a = Finite v"
    by (simp add: js_times_def a_def)
  with w have "v = w"
    by simp
  with lt [OF k] show ?thesis
    by simp
qed

subsection \<open>Evaluation on concrete inputs\<close>

text \<open>
  The numbers the concrete inputs use, parsed once, and the definitions to unfold when a
  closed theorem runs the page.
\<close>

lemma parseFloat_examples:
  "parseFloat ''0'' = Finite 0"
  "parseFloat ''5'' = Finite 5"
  "parseFloat ''10'' = Finite 10"
  "parseFloat ''50'' = Finite 50"
  "parseFloat ''1500'' = Finite 1500"
  "parseFloat ''2500'' = Finite 2500"
  by code_simp+

lemma toDouble_examples:
  "toDouble 0 = Finite 0"
  "toDouble 4 = Finite 4"
  by code_simp+

lemma ex_random_examples:
  "unitDouble ex_random"
  "\<lfloor>ex_random * 24\<rfloor> = 16"
  "js_times (Finite ex_random) (Finite 24) = Finite 17"
  by code_simp+

lemma upt_examples:
  "[0 ..< 8] = [0, 1, 2, 3, 4, 5, 6, 7]"
  "[0 ..< 4] = [0, 1, 2, 3]"
  "[0 ..< 2] = [0, 1]"
  "[0 ..< 1] = [0]"
  by code_simp+

lemma showNat_examples:
  "showNat 0 = ''0''" "showNat 1 = ''1''" "showNat 2 = ''2''" "showNat 3 = ''3''"
  "showNat 4 = ''4''" "showNat 5 = ''5''" "showNat 6 = ''6''" "showNat 7 = ''7''"
  "showNat (Suc 0) = ''1''"
  by code_simp+

lemmas model_defs =
  ex_page_def mounted_def ex_card_def ex_prize_def ex_reply_def ex_result_def ex_won_def
  ex_losing_spin_def ex_catalog_only_def ex_refused_def spec_prize_value_def
  step_def openBoxButton_def playAgainButton_def wonProduct_def runTimer_def
  handleOpenBox_def handleOpenBox_failed_def handleOpenBox_resume_def handleOpenBox_result_def
  handlePlayAgain_def playGame_settled_def startRouletteSpin_def finishSpin_def
  refreshUserBalance_def determineTarget_def commonItems_def matchesPrize_def generateRouletteItems_def
  js_times_def Math_floor_def js_length_def js_at_def toDouble_examples
  pushPrize_def makeItem_def prizeRarity_def listedRarity_def repetitions_def getRarityFromValue_def
  fixImageUrl_def or_string_def falsy_def js_index_def Let_def upt_examples showNat_examples
  msg_connection_def msg_missing_auth_def msg_default_def


subsection \<open>The expander, prize by prize\<close>

text \<open>
  \<open>pushPrize []\<close> is what one prize adds to the reel: the expander concatenates these
  blocks and shuffles the result.
\<close>

lemma foldl_pushPrize: "foldl pushPrize acc ps = acc @ concat (map (pushPrize []) ps)"
  by (induction ps arbitrary: acc) (simp_all add: pushPrize_def Let_def)

lemma length_pushPrize: "length (pushPrize [] p) = repetitions (prizeRarity p)"
  by (simp add: pushPrize_def Let_def)

lemma repetitions_le: "repetitions r \<le> 8"
  by (cases r) (simp_all add: repetitions_def)

lemma showNat_digit: "n < 10 \<Longrightarrow> showNat n = [char_of (48 + n)]"
  by (simp add: showNat.simps)

lemma showNat_inj_digits: "i < 10 \<Longrightarrow> j < 10 \<Longrightarrow> showNat i = showNat j \<Longrightarrow> i = j"
proof -
  assume i: "i < 10" and j: "j < 10" and eq: "showNat i = showNat j"
  then have "(char_of (48 + i) :: char) = char_of (48 + j)"
    by (simp add: showNat_digit)
  then have "of_char (char_of (48 + i) :: char) = (of_char (char_of (48 + j) :: char) :: nat)"
    by simp
  with i j show ?thesis by simp
qed

lemma distinct_ids_pushPrize: "distinct (map item_id (pushPrize [] p))"
proof -
  have "inj_on (\<lambda>i. item_id (makeItem p (prizeRarity p) i)) {0 ..< repetitions (prizeRarity p)}"
  proof (rule inj_onI)
    fix i j
    assume "i \<in> {0 ..< repetitions (prizeRarity p)}" "j \<in> {0 ..< repetitions (prizeRarity p)}"
      and eq: "item_id (makeItem p (prizeRarity p) i) = item_id (makeItem p (prizeRarity p) j)"
    then have "i < 10" "j < 10"
      using repetitions_le [of "prizeRarity p"] by auto
    moreover from eq have "showNat i = showNat j"
      by (simp add: makeItem_def)
    ultimately show "i = j" by (rule showNat_inj_digits)
  qed
  then show ?thesis
    by (simp add: pushPrize_def Let_def distinct_map comp_def)
qed

lemma cells_of_prize:
  "c \<in> set (pushPrize [] p) \<Longrightarrow>
     item_rarity c = prizeRarity p \<and> item_type c = prize_type p \<and> isWinning c = None"
  by (auto simp: pushPrize_def Let_def makeItem_def)

lemma mset_generateRouletteItems:
  "permutes shuffle \<Longrightarrow>
     mset (generateRouletteItems shuffle ps) = mset (concat (map (pushPrize []) ps))"
  by (simp add: generateRouletteItems_def permutes_def foldl_pushPrize)

lemma length_generateRouletteItems:
  "permutes shuffle \<Longrightarrow>
     length (generateRouletteItems shuffle ps) = sum_list (map (\<lambda>p. repetitions (prizeRarity p)) ps)"
proof -
  assume "permutes shuffle"
  then have "size (mset (generateRouletteItems shuffle ps)) = size (mset (concat (map (pushPrize []) ps)))"
    by (simp only: mset_generateRouletteItems)
  then show ?thesis
    by (simp add: length_concat comp_def length_pushPrize)
qed

lemma set_generateRouletteItems:
  "permutes shuffle \<Longrightarrow>
     set (generateRouletteItems shuffle ps) = (\<Union>p \<in> set ps. set (pushPrize [] p))"
proof -
  assume "permutes shuffle"
  then have "set_mset (mset (generateRouletteItems shuffle ps)) = set_mset (mset (concat (map (pushPrize []) ps)))"
    by (simp only: mset_generateRouletteItems)
  then show ?thesis by simp
qed

lemma permutes_rev: "permutes rev"
  by (simp add: permutes_def)

lemma permutes_id: "permutes id"
  by (simp add: permutes_def)

text \<open>
  The table of lines 212-218 is applied to the rarity that line 209 computes: whatever
  permutation the shuffle applies, the reel is the blocks of the catalog's prizes put
  together, and the block of a prize has as many cells as the table gives for that rarity,
  with distinct identifiers.
\<close>

lemma blocks_by_computed_rarity:
  "permutes shuffle \<Longrightarrow>
     mset (generateRouletteItems shuffle ps) = mset (concat (map (pushPrize []) ps)) \<and>
     length (generateRouletteItems shuffle ps) = sum_list (map (\<lambda>p. repetitions (prizeRarity p)) ps) \<and>
     length (pushPrize [] p) = repetitions (prizeRarity p) \<and>
     distinct (map item_id (pushPrize [] p)) \<and>
     distinct (pushPrize [] p) \<and>
     repetitions Common = 8 \<and> repetitions Rare = 4 \<and> repetitions Epic = 2 \<and>
     repetitions Legendary = 1"
proof -
  assume perm: "permutes shuffle"
  have table: "repetitions Common = 8 \<and> repetitions Rare = 4 \<and> repetitions Epic = 2 \<and>
     repetitions Legendary = 1"
    by (simp add: repetitions_def)
  have "distinct (pushPrize [] p)"
    using distinct_ids_pushPrize [of p] by (rule distinct_map [THEN iffD1, THEN conjunct1])
  then show ?thesis
    using table
    by (simp add: mset_generateRouletteItems [OF perm] length_generateRouletteItems [OF perm]
        length_pushPrize distinct_ids_pushPrize)
qed

lemma mset_cells_of_shuffle:
  assumes "permutes shuffle"
  shows "mset (map f (generateRouletteItems shuffle ps)) = mset (map f (generateRouletteItems id ps))"
proof -
  from assms have "mset (generateRouletteItems shuffle ps) = mset (generateRouletteItems id ps)"
    by (simp add: generateRouletteItems_def permutes_def)
  then show ?thesis
    by (simp only: mset_map)
qed

text \<open>
  Claim C5, on a concrete catalog. The catalog holds a \<^verbatim>\<open>MONEY\<close> prize of value
  \<^verbatim>\<open>'5'\<close>, which is common, and a \<^verbatim>\<open>PRODUCT\<close> prize with value \<^verbatim>\<open>'5'\<close> and redemption
  value \<^verbatim>\<open>'1500'\<close>, which is legendary by its effective value: the table gives 8 + 1 = 9
  cells. Whatever permutation the shuffle applies, the reel has 16 cells: line 208 reads
  the product's number from \<^verbatim>\<open>value\<close>, ranks it common and repeats it 8 times, in cells
  that show the value 1500 under the rarity common.
\<close>

theorem product_prize_repeated_by_wrong_value:
  assumes "permutes shuffle"
  shows "listedRarity (ex_prize ''a'' ''MONEY'' ''5'' None True) = Common \<and>
         listedRarity (ex_prize ''b'' ''PRODUCT'' ''5'' (Some ''1500'') True) = Legendary \<and>
         repetitions (listedRarity (ex_prize ''a'' ''MONEY'' ''5'' None True)) +
           repetitions (listedRarity (ex_prize ''b'' ''PRODUCT'' ''5'' (Some ''1500'') True)) = 9 \<and>
         length (generateRouletteItems shuffle
           [ex_prize ''a'' ''MONEY'' ''5'' None True,
            ex_prize ''b'' ''PRODUCT'' ''5'' (Some ''1500'') True]) = 16 \<and>
         mset (map (\<lambda>c. (item_id c, item_type c, item_value c, item_rarity c))
                (generateRouletteItems shuffle
                   [ex_prize ''a'' ''MONEY'' ''5'' None True,
                    ex_prize ''b'' ''PRODUCT'' ''5'' (Some ''1500'') True]))
           = mset [(''a-0'', ''MONEY'', ''5'', Common), (''a-1'', ''MONEY'', ''5'', Common),
                   (''a-2'', ''MONEY'', ''5'', Common), (''a-3'', ''MONEY'', ''5'', Common),
                   (''a-4'', ''MONEY'', ''5'', Common), (''a-5'', ''MONEY'', ''5'', Common),
                   (''a-6'', ''MONEY'', ''5'', Common), (''a-7'', ''MONEY'', ''5'', Common),
                   (''b-0'', ''PRODUCT'', ''1500'', Common), (''b-1'', ''PRODUCT'', ''1500'', Common),
                   (''b-2'', ''PRODUCT'', ''1500'', Common), (''b-3'', ''PRODUCT'', ''1500'', Common),
                   (''b-4'', ''PRODUCT'', ''1500'', Common), (''b-5'', ''PRODUCT'', ''1500'', Common),
                   (''b-6'', ''PRODUCT'', ''1500'', Common), (''b-7'', ''PRODUCT'', ''1500'', Common)]"
proof -
  let ?a = "ex_prize ''a'' ''MONEY'' ''5'' None True"
  let ?b = "ex_prize ''b'' ''PRODUCT'' ''5'' (Some ''1500'') True"
  have la: "listedRarity ?a = Common"
    by (simp add: model_defs parseFloat_examples)
  have lb: "listedRarity ?b = Legendary"
    by (simp add: model_defs parseFloat_examples)
  have tab: "repetitions (listedRarity ?a) + repetitions (listedRarity ?b) = 9"
    by (simp add: la lb repetitions_def)
  have pa: "prizeRarity ?a = Common"
    by (simp add: model_defs parseFloat_examples)
  have pb: "prizeRarity ?b = Common"
    by (simp add: model_defs parseFloat_examples)
  have len: "length (generateRouletteItems shuffle [?a, ?b]) = 16"
    by (simp add: length_generateRouletteItems [OF assms] pa pb repetitions_def)
  have "map (\<lambda>c. (item_id c, item_type c, item_value c, item_rarity c))
          (generateRouletteItems id [?a, ?b])
        = [(''a-0'', ''MONEY'', ''5'', Common), (''a-1'', ''MONEY'', ''5'', Common),
                   (''a-2'', ''MONEY'', ''5'', Common), (''a-3'', ''MONEY'', ''5'', Common),
                   (''a-4'', ''MONEY'', ''5'', Common), (''a-5'', ''MONEY'', ''5'', Common),
                   (''a-6'', ''MONEY'', ''5'', Common), (''a-7'', ''MONEY'', ''5'', Common),
                   (''b-0'', ''PRODUCT'', ''1500'', Common), (''b-1'', ''PRODUCT'', ''1500'', Common),
                   (''b-2'', ''PRODUCT'', ''1500'', Common), (''b-3'', ''PRODUCT'', ''1500'', Common),
                   (''b-4'', ''PRODUCT'', ''1500'', Common), (''b-5'', ''PRODUCT'', ''1500'', Common),
                   (''b-6'', ''PRODUCT'', ''1500'', Common), (''b-7'', ''PRODUCT'', ''1500'', Common)]"
    by (simp add: model_defs parseFloat_examples)
  with mset_cells_of_shuffle [OF assms,
      of "\<lambda>c. (item_id c, item_type c, item_value c, item_rarity c)" "[?a, ?b]"]
  have cells: "mset (map (\<lambda>c. (item_id c, item_type c, item_value c, item_rarity c))
                (generateRouletteItems shuffle [?a, ?b]))
           = mset [(''a-0'', ''MONEY'', ''5'', Common), (''a-1'', ''MONEY'', ''5'', Common),
                   (''a-2'', ''MONEY'', ''5'', Common), (''a-3'', ''MONEY'', ''5'', Common),
                   (''a-4'', ''MONEY'', ''5'', Common), (''a-5'', ''MONEY'', ''5'', Common),
                   (''a-6'', ''MONEY'', ''5'', Common), (''a-7'', ''MONEY'', ''5'', Common),
                   (''b-0'', ''PRODUCT'', ''1500'', Common), (''b-1'', ''PRODUCT'', ''1500'', Common),
                   (''b-2'', ''PRODUCT'', ''1500'', Common), (''b-3'', ''PRODUCT'', ''1500'', Common),
                   (''b-4'', ''PRODUCT'', ''1500'', Common), (''b-5'', ''PRODUCT'', ''1500'', Common),
                   (''b-6'', ''PRODUCT'', ''1500'', Common), (''b-7'', ''PRODUCT'', ''1500'', Common)]"
    by (simp only:)
  from la lb tab len cells show ?thesis
    by (intro conjI)
qed

theorem product_prize_repeated_by_wrong_value_witness:
  "permutes rev \<and>
   length (generateRouletteItems rev
     [ex_prize ''a'' ''MONEY'' ''5'' None True,
      ex_prize ''b'' ''PRODUCT'' ''5'' (Some ''1500'') True]) = 16 \<and>
   map (\<lambda>c. (item_id c, item_value c, item_rarity c))
     (take 2 (generateRouletteItems rev
        [ex_prize ''a'' ''MONEY'' ''5'' None True,
         ex_prize ''b'' ''PRODUCT'' ''5'' (Some ''1500'') True]))
     = [(''b-7'', ''1500'', Common), (''b-6'', ''1500'', Common)]"
proof -
  have "map (\<lambda>c. (item_id c, item_value c, item_rarity c))
     (take 2 (generateRouletteItems rev
        [ex_prize ''a'' ''MONEY'' ''5'' None True,
         ex_prize ''b'' ''PRODUCT'' ''5'' (Some ''1500'') True]))
     = [(''b-7'', ''1500'', Common), (''b-6'', ''1500'', Common)]"
    by (simp add: model_defs parseFloat_examples)
  with product_prize_repeated_by_wrong_value [OF permutes_rev] permutes_rev show ?thesis
    by blast
qed

lemma generateRouletteItems_ignores_active:
  "generateRouletteItems shuffle (map (\<lambda>p. p\<lparr>prize_is_active := act p\<rparr>) ps)
     = generateRouletteItems shuffle ps"
proof -
  have "pushPrize [] (p\<lparr>prize_is_active := b\<rparr>) = pushPrize [] p" for p b
    by (simp add: pushPrize_def prizeRarity_def makeItem_def Let_def)
  then show ?thesis
    by (simp add: generateRouletteItems_def foldl_pushPrize comp_def)
qed

lemma pushPrize_nonempty: "pushPrize [] p \<noteq> []"
proof -
  have "0 < repetitions (prizeRarity p)"
    by (cases "prizeRarity p") (simp_all add: repetitions_def)
  then have "0 < length (pushPrize [] p)"
    by (simp add: length_pushPrize)
  then show ?thesis by auto
qed

lemma generateRouletteItems_empty_iff:
  "permutes shuffle \<Longrightarrow> generateRouletteItems shuffle ps = [] \<longleftrightarrow> ps = []"
proof -
  assume perm: "permutes shuffle"
  have "generateRouletteItems shuffle ps = [] \<longleftrightarrow> set (generateRouletteItems shuffle ps) = {}"
    by simp
  also have "\<dots> \<longleftrightarrow> ps = []"
    using pushPrize_nonempty by (cases ps) (auto simp: set_generateRouletteItems [OF perm])
  finally show ?thesis .
qed

lemma getRarityFromValue_NaN: "getRarityFromValue NaN = Common"
  by (simp add: getRarityFromValue_def)

text \<open>
  Claim C4, as amended. The expander never reads the active flag: setting the flags of a
  catalog at will leaves the reel as it is, every prize of the catalog contributes a
  non-empty block, and the reel is empty exactly for the empty catalog. Every cell of a
  block carries the rarity computed for its prize. For a \<^verbatim>\<open>MONEY\<close> prize with a
  non-empty value that rarity comes from the monetary value; for a prize of another
  category with an empty value it comes from the redemption value, a missing or empty one
  being read as \<^verbatim>\<open>'0'\<close>; a value that does not parse gives NaN, which ranks common as 0
  does.
\<close>

theorem expander_cells_for_every_prize:
  "permutes shuffle \<Longrightarrow>
     generateRouletteItems shuffle (map (\<lambda>p. p\<lparr>prize_is_active := act p\<rparr>) ps)
       = generateRouletteItems shuffle ps \<and>
     (generateRouletteItems shuffle ps = [] \<longleftrightarrow> ps = []) \<and>
     set (generateRouletteItems shuffle ps) = (\<Union>p \<in> set ps. set (pushPrize [] p)) \<and>
     pushPrize [] p \<noteq> [] \<and>
     list_all (\<lambda>c. item_rarity c = prizeRarity p) (pushPrize [] p) \<and>
     (prize_type p = ''MONEY'' \<and> prize_value p \<noteq> [] \<longrightarrow>
        prizeRarity p = getRarityFromValue (parseFloat (prize_value p))) \<and>
     (prize_type p \<noteq> ''MONEY'' \<and> prize_value p = [] \<longrightarrow>
        prizeRarity p =
          getRarityFromValue (parseFloat (or_string (prize_redemption_value p) ''0''))) \<and>
     or_string None ''0'' = ''0'' \<and> or_string (Some []) ''0'' = ''0'' \<and>
     getRarityFromValue (parseFloat ''0'') = Common \<and>
     getRarityFromValue NaN = Common"
proof -
  assume perm: "permutes shuffle"
  have "list_all (\<lambda>c. item_rarity c = prizeRarity p) (pushPrize [] p)"
    by (simp add: list_all_iff cells_of_prize)
  moreover have "prize_type p = ''MONEY'' \<and> prize_value p \<noteq> [] \<longrightarrow>
        prizeRarity p = getRarityFromValue (parseFloat (prize_value p))"
    by (simp add: prizeRarity_def or_string_def)
  moreover have "prize_type p \<noteq> ''MONEY'' \<and> prize_value p = [] \<longrightarrow>
        prizeRarity p =
          getRarityFromValue (parseFloat (or_string (prize_redemption_value p) ''0''))"
    by (simp add: prizeRarity_def or_string_def)
  moreover have "getRarityFromValue (parseFloat ''0'') = Common"
    by (simp add: parseFloat_examples getRarityFromValue_def)
  ultimately show ?thesis
    using pushPrize_nonempty [of p]
    by (simp add: generateRouletteItems_ignores_active generateRouletteItems_empty_iff [OF perm]
        set_generateRouletteItems [OF perm] getRarityFromValue_NaN or_string_def)
qed

theorem expander_cells_for_every_prize_witness:
  "permutes rev \<and>
   generateRouletteItems rev [ex_prize ''a'' ''MONEY'' ''5'' None False] \<noteq> [] \<and>
   prize_type (ex_prize ''a'' ''MONEY'' ''5'' None False) = ''MONEY'' \<and>
   prize_value (ex_prize ''a'' ''MONEY'' ''5'' None False) \<noteq> [] \<and>
   prizeRarity (ex_prize ''a'' ''MONEY'' ''5'' None False) = getRarityFromValue (parseFloat ''5'') \<and>
   prize_type (ex_prize ''b'' ''PRODUCT'' [] (Some ''50'') True) \<noteq> ''MONEY'' \<and>
   prize_value (ex_prize ''b'' ''PRODUCT'' [] (Some ''50'') True) = [] \<and>
   prizeRarity (ex_prize ''b'' ''PRODUCT'' [] (Some ''50'') True)
     = getRarityFromValue (parseFloat ''50'')"
  using expander_cells_for_every_prize [OF permutes_rev,
      of "\<lambda>p. True" "[ex_prize ''a'' ''MONEY'' ''5'' None False]" "ex_prize ''a'' ''MONEY'' ''5'' None False"]
    expander_cells_for_every_prize [OF permutes_rev,
      of "\<lambda>p. True" "[ex_prize ''a'' ''MONEY'' ''5'' None False]" "ex_prize ''b'' ''PRODUCT'' [] (Some ''50'') True"]
    permutes_rev
  by (simp add: ex_prize_def or_string_def)

text \<open>
  Claim C4 as stated fails: a catalog whose only prize is inactive expands to 8 cells.
\<close>

theorem inactive_catalog_counterexample:
  "\<not> prize_is_active (ex_prize ''a'' ''MONEY'' ''5'' None False) \<and>
   length (generateRouletteItems id [ex_prize ''a'' ''MONEY'' ''5'' None False]) = 8"
  by (simp add: model_defs parseFloat_examples)


subsection \<open>The reconciler\<close>

lemma js_index_Nil: "js_index [] i = None"
  by (simp add: js_index_def)

lemma determineTarget_loser:
  assumes "\<not> isWinner result"
  shows "determineTarget result items u =
           (items,
            case js_at (commonItems items)
                   (Math_floor (js_times (Finite u) (js_length (commonItems items)))) of
              Some c \<Rightarrow> Some c
            | None \<Rightarrow> js_index items 0)"
  using assms by (simp add: determineTarget_def Let_def)

lemma js_at_Nil: "js_at [] v = None"
  by (cases v) (simp_all add: js_at_def)

lemma js_at_nat: "i < length xs \<Longrightarrow> js_at xs (Finite (of_nat i)) = Some (xs ! i)"
  by (simp add: js_at_def)

lemma length_commonItems: "length (commonItems items) \<le> length items"
  by (simp add: commonItems_def)

text \<open>
  Claim C6. For a losing result and a double \<open>u\<close> of \<open>[0, 1)\<close> returned by
  \<^verbatim>\<open>Math.random()\<close>, the reel is left as it is. When the reel has common cells, \<open>n\<close>
  of them, the target is one of them: the cell at position \<open>i\<close> of the common cells in reel
  order, where \<open>i\<close> is the floor of the double that the product \<open>u \<sqdot> n\<close> rounds to.
  The choice is uniform up to that rounding: position \<open>i\<close> is chosen only when
  \<open>i - 2\<^sup>-\<^sup>2\<^sup>1 < u \<sqdot> n < i + 1\<close>, and position \<open>j\<close> is chosen whenever
  \<open>j \<le> u \<sqdot> n \<le> j + 1 - 2\<^sup>-\<^sup>2\<^sup>1\<close>, so every position is chosen on an interval of
  \<open>u\<close> of length \<open>1/n\<close> up to \<open>2\<^sup>-\<^sup>2\<^sup>1/n\<close>. When the reel has no common cell the target
  is the first cell of the reel (none for an empty reel). A JavaScript array has fewer
  than \<open>2\<^sup>3\<^sup>2\<close> elements.
\<close>

theorem loss_lands_on_common_cell:
  assumes "\<not> isWinner result" and "unitDouble u" and "length items < 2 ^ 32"
  shows "fst (determineTarget result items u) = items \<and>
         (commonItems items \<noteq> [] \<longrightarrow>
            (\<exists>i < length (commonItems items).
                 Math_floor (js_times (Finite u) (js_length (commonItems items))) = Finite (of_nat i) \<and>
                 snd (determineTarget result items u) = Some (commonItems items ! i) \<and>
                 commonItems items ! i \<in> set items \<and>
                 item_rarity (commonItems items ! i) = Common \<and>
                 of_nat i - 1 / 2 ^ 21 < u * of_nat (length (commonItems items)) \<and>
                 u * of_nat (length (commonItems items)) < of_nat i + 1 \<and>
                 (\<forall>j. of_nat j \<le> u * of_nat (length (commonItems items)) \<and>
                      u * of_nat (length (commonItems items)) + 1 / 2 ^ 21 \<le> of_nat j + 1
                      \<longrightarrow> i = j))) \<and>
         (commonItems items = [] \<longrightarrow>
            snd (determineTarget result items u) = (case items of [] \<Rightarrow> None | c # _ \<Rightarrow> Some c))"
proof -
  define cs where "cs = commonItems items"
  define n where "n = length cs"
  have dt: "determineTarget result items u =
              (items, case js_at cs (Math_floor (js_times (Finite u) (js_length cs))) of
                        Some c \<Rightarrow> Some c | None \<Rightarrow> js_index items 0)"
    using determineTarget_loser [OF assms(1)] by (simp add: cs_def)
  have a: "\<exists>i < n.
             Math_floor (js_times (Finite u) (js_length cs)) = Finite (of_nat i) \<and>
             snd (determineTarget result items u) = Some (cs ! i) \<and>
             cs ! i \<in> set items \<and> item_rarity (cs ! i) = Common \<and>
             of_nat i - 1 / 2 ^ 21 < u * of_nat n \<and> u * of_nat n < of_nat i + 1 \<and>
             (\<forall>j. of_nat j \<le> u * of_nat n \<and> u * of_nat n + 1 / 2 ^ 21 \<le> of_nat j + 1 \<longrightarrow> i = j)"
    if ne: "cs \<noteq> []"
  proof -
    from ne have pos: "0 < n" by (simp add: n_def)
    have "n \<le> length items"
      unfolding n_def cs_def by (rule length_commonItems)
    with assms(3) have lim: "n < 2 ^ 32" by simp
    from random_index [OF assms(2) pos lim] obtain v where
      v: "js_times (Finite u) (Finite (of_nat n)) = Finite v" and v0: "0 \<le> v" and vn: "v < of_nat n"
      and lo: "\<lfloor>u * of_nat n\<rfloor> \<le> \<lfloor>v\<rfloor>"
      by blast
    define i where "i = nat \<lfloor>v\<rfloor>"
    from v0 have f0: "0 \<le> \<lfloor>v\<rfloor>" by simp
    then have fi: "\<lfloor>v\<rfloor> = int i" by (simp add: i_def)
    from vn have "\<lfloor>v\<rfloor> < int n" by (simp add: floor_less_iff)
    with fi have i: "i < n" by simp
    have "(of_int \<lfloor>v\<rfloor> :: rat) = of_int (int i)"
      by (simp only: fi)
    then have fl: "(of_int \<lfloor>v\<rfloor> :: rat) = of_nat i"
      by simp
    have mf: "Math_floor (js_times (Finite u) (js_length cs)) = Finite (of_nat i)"
      using v fl by (simp add: js_length_def n_def [symmetric] Math_floor_def)
    from i have "js_at cs (Finite (of_nat i)) = Some (cs ! i)"
      unfolding n_def by (rule js_at_nat)
    with mf have tgt: "snd (determineTarget result items u) = Some (cs ! i)"
      by (simp add: dt)
    from i have "cs ! i \<in> set cs"
      by (simp add: n_def)
    then have mem: "cs ! i \<in> set items" and rar: "item_rarity (cs ! i) = Common"
      by (simp_all add: cs_def commonItems_def)
    have up: "u * of_nat n < of_nat i + 1"
    proof -
      from lo fi have "\<lfloor>u * of_nat n\<rfloor> < int i + 1" by simp
      then have "u * of_nat n < of_int (int i + 1)"
        by (simp only: floor_less_iff)
      then show ?thesis by simp
    qed
    have vi: "of_nat i \<le> v"
      using of_int_floor_le [of v] by (simp only: fl)
    have down: "of_nat i - 1 / 2 ^ 21 < u * of_nat n"
    proof (rule ccontr)
      assume "\<not> of_nat i - 1 / 2 ^ 21 < u * of_nat n"
      then have "u * of_nat n + 1 / 2 ^ 21 \<le> of_int (int i)"
        by simp
      from random_index_near [OF assms(2) pos lim v this] have "v < of_nat i"
        by simp
      with vi show False by simp
    qed
    have uniq: "i = j" if j: "of_nat j \<le> u * of_nat n" "u * of_nat n + 1 / 2 ^ 21 \<le> of_nat j + 1" for j
    proof -
      from j(2) have "u * of_nat n + 1 / 2 ^ 21 \<le> of_int (int j + 1)"
        by simp
      from random_index_near [OF assms(2) pos lim v this] have "v < of_int (int j + 1)" .
      then have "\<lfloor>v\<rfloor> < int j + 1"
        by (simp only: floor_less_iff)
      with fi have le: "i \<le> j" by simp
      from j(1) have "of_int (int j) \<le> u * of_nat n" by simp
      then have "int j \<le> \<lfloor>u * of_nat n\<rfloor>"
        by (simp only: le_floor_iff)
      with lo fi have "j \<le> i" by simp
      with le show ?thesis by simp
    qed
    have all: "\<forall>j. of_nat j \<le> u * of_nat n \<and> u * of_nat n + 1 / 2 ^ 21 \<le> of_nat j + 1 \<longrightarrow> i = j"
      using uniq by (intro allI impI) (elim conjE)
    show ?thesis
      by (rule exI [of _ i]) (intro conjI i mf tgt mem rar down up all)
  qed
  have b: "snd (determineTarget result items u) = (case items of [] \<Rightarrow> None | c # _ \<Rightarrow> Some c)"
    if "cs = []"
  proof -
    from that have "snd (determineTarget result items u) = js_index items 0"
      by (simp add: dt js_at_Nil)
    also have "\<dots> = (case items of [] \<Rightarrow> None | c # _ \<Rightarrow> Some c)"
      by (cases items) (simp_all add: js_index_def)
    finally show ?thesis .
  qed
  have c: "fst (determineTarget result items u) = items"
    by (simp add: dt)
  from c a b show ?thesis
    unfolding cs_def n_def by (intro conjI impI)
qed

theorem loss_lands_on_common_cell_witness:
  "\<not> isWinner (ex_result False ''0'' None) \<and> unitDouble ex_random \<and>
   length (generateRouletteItems id
       [ex_prize ''a'' ''MONEY'' ''5'' None True, ex_prize ''b'' ''MONEY'' ''5'' None True,
        ex_prize ''c'' ''MONEY'' ''5'' None True]) < 2 ^ 32 \<and>
   map item_id (commonItems (generateRouletteItems id
       [ex_prize ''a'' ''MONEY'' ''5'' None True, ex_prize ''b'' ''MONEY'' ''5'' None True,
        ex_prize ''c'' ''MONEY'' ''5'' None True]))
     = [''a-0'', ''a-1'', ''a-2'', ''a-3'', ''a-4'', ''a-5'', ''a-6'', ''a-7'',
        ''b-0'', ''b-1'', ''b-2'', ''b-3'', ''b-4'', ''b-5'', ''b-6'', ''b-7'',
        ''c-0'', ''c-1'', ''c-2'', ''c-3'', ''c-4'', ''c-5'', ''c-6'', ''c-7''] \<and>
   \<lfloor>ex_random * 24\<rfloor> = 16 \<and>
   js_times (Finite ex_random) (Finite 24) = Finite 17 \<and>
   map_option (\<lambda>c. (item_id c, item_rarity c))
     (snd (determineTarget (ex_result False ''0'' None)
        (generateRouletteItems id
           [ex_prize ''a'' ''MONEY'' ''5'' None True, ex_prize ''b'' ''MONEY'' ''5'' None True,
            ex_prize ''c'' ''MONEY'' ''5'' None True])
        ex_random))
     = Some (''c-1'', Common) \<and>
   commonItems (generateRouletteItems id [ex_prize ''b'' ''MONEY'' ''1500'' None True]) = [] \<and>
   map_option item_id
     (snd (determineTarget (ex_result False ''0'' None)
            (generateRouletteItems id [ex_prize ''b'' ''MONEY'' ''1500'' None True]) ex_random))
     = Some ''b-0''"
proof -
  let ?lose = "ex_result False ''0'' None"
  let ?reel = "generateRouletteItems id
       [ex_prize ''a'' ''MONEY'' ''5'' None True, ex_prize ''b'' ''MONEY'' ''5'' None True,
        ex_prize ''c'' ''MONEY'' ''5'' None True]"
  let ?rare = "generateRouletteItems id [ex_prize ''b'' ''MONEY'' ''1500'' None True]"
  have l: "\<not> isWinner ?lose"
    by (simp add: ex_result_def)
  have u: "unitDouble ex_random"
    by (rule ex_random_examples)
  have fl: "\<lfloor>ex_random * 24\<rfloor> = 16"
    by (rule ex_random_examples)
  have tm: "js_times (Finite ex_random) (Finite 24) = Finite 17"
    by (rule ex_random_examples)
  have ids: "map item_id (commonItems ?reel)
      = [''a-0'', ''a-1'', ''a-2'', ''a-3'', ''a-4'', ''a-5'', ''a-6'', ''a-7'',
         ''b-0'', ''b-1'', ''b-2'', ''b-3'', ''b-4'', ''b-5'', ''b-6'', ''b-7'',
         ''c-0'', ''c-1'', ''c-2'', ''c-3'', ''c-4'', ''c-5'', ''c-6'', ''c-7'']"
    by (simp add: model_defs parseFloat_examples)
  then have "length (map item_id (commonItems ?reel))
      = length [''a-0'', ''a-1'', ''a-2'', ''a-3'', ''a-4'', ''a-5'', ''a-6'', ''a-7'',
         ''b-0'', ''b-1'', ''b-2'', ''b-3'', ''b-4'', ''b-5'', ''b-6'', ''b-7'',
         ''c-0'', ''c-1'', ''c-2'', ''c-3'', ''c-4'', ''c-5'', ''c-6'', ''c-7'']"
    by (simp only:)
  then have len: "length (commonItems ?reel) = 24"
    by simp
  then have ne: "commonItems ?reel \<noteq> []"
    by auto
  have small: "length ?reel < 2 ^ 32"
    by (simp add: model_defs parseFloat_examples)
  have small': "length ?rare < 2 ^ 32"
    by (simp add: model_defs parseFloat_examples)
  have mf: "Math_floor (js_times (Finite ex_random) (js_length (commonItems ?reel))) = Finite (of_nat 17)"
    by (simp add: js_length_def len tm Math_floor_def)
  have cell: "map_option (\<lambda>c. (item_id c, item_rarity c)) (Some (commonItems ?reel ! 17))
      = Some (''c-1'', Common)"
    by (simp add: model_defs parseFloat_examples)
  have none: "commonItems ?rare = []"
    by (simp add: model_defs parseFloat_examples)
  have first: "map_option item_id (case ?rare of [] \<Rightarrow> None | c # _ \<Rightarrow> Some c) = Some ''b-0''"
    by (simp add: model_defs parseFloat_examples)
  from loss_lands_on_common_cell [OF l u small] ne
  obtain i where i: "Math_floor (js_times (Finite ex_random) (js_length (commonItems ?reel)))
        = Finite (of_nat i)"
      and t: "snd (determineTarget ?lose ?reel ex_random) = Some (commonItems ?reel ! i)"
    by blast
  from i mf have "(of_nat i :: rat) = of_nat 17"
    by simp
  then have "i = 17"
    by (simp only: of_nat_eq_iff)
  with t cell have a: "map_option (\<lambda>c. (item_id c, item_rarity c))
      (snd (determineTarget ?lose ?reel ex_random)) = Some (''c-1'', Common)"
    by (simp only:)
  from loss_lands_on_common_cell [OF l u small'] none
  have "snd (determineTarget ?lose ?rare ex_random) = (case ?rare of [] \<Rightarrow> None | c # _ \<Rightarrow> Some c)"
    by blast
  with first have b: "map_option item_id (snd (determineTarget ?lose ?rare ex_random)) = Some ''b-0''"
    by (simp only:)
  from l u small ids fl tm a none b show ?thesis
    by (intro conjI)
qed

lemma matchesPrize_money:
  assumes "won_type w = ''MONEY''" and "won_value w \<noteq> []"
  shows "matchesPrize w c =
           (item_type c = won_type w \<and>
            js_eq (parseFloat (item_value c)) (parseFloat (spec_prize_value w)))"
  using assms by (simp add: matchesPrize_def spec_prize_value_def or_string_def)

lemma findIndex_first:
  "findIndex P xs = (if \<exists>x \<in> set xs. P x then int (length (takeWhile (\<lambda>x. \<not> P x) xs)) else - 1)"
  by (induction xs) (auto simp: Let_def)

lemma determineTarget_winner_found:
  assumes "isWinner result" and "prize result = Some w" and "\<exists>c \<in> set items. matchesPrize w c"
  shows "\<exists>i < length items.
           i = length (takeWhile (\<lambda>c. \<not> matchesPrize w c) items) \<and> matchesPrize w (items ! i) \<and>
           determineTarget result items u =
             (items[i := (items ! i)\<lparr>isWinning := Some True\<rparr>],
              Some ((items ! i)\<lparr>isWinning := Some True\<rparr>))"
proof -
  let ?i = "length (takeWhile (\<lambda>c. \<not> matchesPrize w c) items)"
  have lt: "?i < length items"
    using assms(3) by (induction items) auto
  have hit: "matchesPrize w (items ! ?i)"
    using nth_length_takeWhile [OF lt] by simp
  have "findIndex (matchesPrize w) items = int ?i"
    using assms(3) by (simp add: findIndex_first)
  then have "determineTarget result items u =
             (items[?i := (items ! ?i)\<lparr>isWinning := Some True\<rparr>],
              Some ((items ! ?i)\<lparr>isWinning := Some True\<rparr>))"
    using assms(1,2) lt by (simp add: determineTarget_def Let_def)
  with lt hit show ?thesis by blast
qed

lemma determineTarget_winner_missing:
  assumes "isWinner result" and "prize result = Some w" and "\<not> (\<exists>c \<in> set items. matchesPrize w c)"
  shows "determineTarget result items u = (items, None)"
  using assms by (simp add: determineTarget_def Let_def findIndex_first)

text \<open>
  Claim C2, on a concrete reel. The catalog holds product A, with value \<^verbatim>\<open>'10'\<close> and
  redemption value \<^verbatim>\<open>'50'\<close>, and product B, without value and with redemption value
  \<^verbatim>\<open>'10'\<close>. The result says product A is won. The reel starts with a cell of A, whose
  category and number (50) are those of the won prize read from its category-appropriate
  field; the reconciler passes it over and marks the first cell of B, of value 10, as the
  landing cell.
\<close>

theorem product_win_lands_on_other_prize:
  "map item_id (generateRouletteItems id
      [ex_prize ''A'' ''PRODUCT'' ''10'' (Some ''50'') True,
       ex_prize ''B'' ''PRODUCT'' [] (Some ''10'') True])
     = [''A-0'', ''A-1'', ''A-2'', ''A-3'', ''B-0'', ''B-1'', ''B-2'', ''B-3''] \<and>
   item_type (hd (generateRouletteItems id
      [ex_prize ''A'' ''PRODUCT'' ''10'' (Some ''50'') True,
       ex_prize ''B'' ''PRODUCT'' [] (Some ''10'') True]))
     = won_type (ex_won ''A'' ''PRODUCT'' ''10'' (Some ''50'')) \<and>
   js_eq (parseFloat (item_value (hd (generateRouletteItems id
      [ex_prize ''A'' ''PRODUCT'' ''10'' (Some ''50'') True,
       ex_prize ''B'' ''PRODUCT'' [] (Some ''10'') True]))))
     (parseFloat (spec_prize_value (ex_won ''A'' ''PRODUCT'' ''10'' (Some ''50'')))) \<and>
   map_option (\<lambda>c. (item_id c, item_value c, isWinning c))
     (snd (determineTarget
        (ex_result True ''50'' (Some (ex_won ''A'' ''PRODUCT'' ''10'' (Some ''50''))))
        (generateRouletteItems id
          [ex_prize ''A'' ''PRODUCT'' ''10'' (Some ''50'') True,
           ex_prize ''B'' ''PRODUCT'' [] (Some ''10'') True]) 0))
     = Some (''B-0'', ''10'', Some True)"
  by (simp add: model_defs parseFloat_examples)

subsection \<open>Every reachable page is consistent\<close>

lemma consistent_mounted: "consistent (mounted rid auth tok)"
  by (simp add: consistent_def mounted_def finishTimers_def fresh_def)

lemma finishTimers_simps [simp]:
  "finishTimers (s\<lparr>current := v\<rparr>) = finishTimers s"
  "finishTimers (s\<lparr>inflight := i\<rparr>) = finishTimers s"
  "finishTimers (s\<lparr>toasts := t\<rparr>) = finishTimers s"
  "finishTimers (s\<lparr>now := n\<rparr>) = finishTimers s"
  "finishTimers (s\<lparr>balanceRefreshes := b\<rparr>) = finishTimers s"
  by (simp_all add: finishTimers_def)

lemma handleOpenBox_consistent:
  assumes "consistent s" and "inflight s = []" and "finishTimers s = []"
    and "rouletteItems (current s) = []" and "\<not> isSpinning (current s)"
    and "finalRotation (current s) = 0"
  shows "consistent (handleOpenBox cap s)"
proof (cases "\<not> isAuthenticated cap \<or> playingGame cap \<or> scratchCardData cap = None")
  case True
  then show ?thesis using assms(1) by (simp add: handleOpenBox_def)
next
  case False
  from assms(1,2) have np: "\<not> playingGame (current s)"
    by (simp add: consistent_def)
  show ?thesis
  proof (cases "falsy (router_id cap) \<or> falsy (Some (or_string (token cap) []))")
    case True
    with False assms(2-6) np show ?thesis
      by (auto simp: handleOpenBox_def Let_def handleOpenBox_failed_def consistent_def fresh_def)
  next
    case nf: False
    with False assms(2-6) show ?thesis
      by (auto simp: handleOpenBox_def Let_def consistent_def fresh_def)
  qed
qed

lemma click_open_consistent:
  assumes "consistent s" and "gameState (current s) = idle"
  shows "consistent (handleOpenBox (current s) s)"
proof -
  from assms have "inflight s = []" "finishTimers s = []" "fresh (current s)"
    by (auto simp: consistent_def)
  then show ?thesis
    using assms(1) by (intro handleOpenBox_consistent) (simp_all add: fresh_def)
qed

lemma click_again_consistent:
  assumes "consistent s" and "gameState (current s) = completed"
  shows "consistent (handlePlayAgain (current s) s)"
proof (cases "\<not> isAuthenticated (current s) \<or> playingGame (current s) \<or> scratchCardData (current s) = None")
  case True
  then show ?thesis using assms(1) by (simp add: handlePlayAgain_def)
next
  case False
  let ?s = "s\<lparr>current := (current s)\<lparr>rouletteItems := [], showConfetti := False,
                                           hasWon := False, totalWinnings := Finite 0,
                                           gameResult := None, winningItem := None,
                                           isSpinning := False, finalRotation := 0\<rparr>\<rparr>"
  from assms have i: "inflight s = []" and f: "finishTimers s = []"
    by (auto simp: consistent_def)
  have c: "consistent ?s"
    using assms by (simp add: consistent_def)
  have "consistent (handleOpenBox (current s) ?s)"
    using c i f by (intro handleOpenBox_consistent) simp_all
  with False show ?thesis by (auto simp: handlePlayAgain_def)
qed

lemma startRouletteSpin_cases:
  "startRouletteSpin cap t items s = s \<or>
   (\<exists>r. startRouletteSpin cap t items s =
      s\<lparr>current := (current s)\<lparr>isSpinning := True, finalRotation := r, spinDuration := 4000\<rparr>,
        timers := timers s @ [(now s + 4000, FinishSpin cap)]\<rparr>)"
  by (cases t) (auto simp: startRouletteSpin_def Let_def)

lemma startRouletteSpin_consistent:
  assumes "inflight s = []" "finishTimers s = []" "gameState (current s) = spinning"
    "\<not> playingGame (current s)"
  shows "consistent (startRouletteSpin cap t items s)"
  using startRouletteSpin_cases [of cap t items s] assms
  by (auto simp: consistent_def finishTimers_def is_finish_def)

lemma play_returns_consistent:
  assumes "consistent s" and "inflight s = cap # rest"
  shows "consistent (handleOpenBox_resume cap outcome shuffle u (s\<lparr>inflight := rest\<rparr>))"
proof -
  from assms have rest: "rest = []" and ld: "gameState (current s) = loading"
    and sc: "scratchCardData cap \<noteq> None" and f: "finishTimers s = []" and fr: "fresh (current s)"
    by (auto simp: consistent_def)
  show ?thesis
  proof (cases "playGame_settled outcome")
    case (Pair result msg)
    show ?thesis
    proof (cases result)
      case None
      with Pair rest ld f fr show ?thesis
        by (simp add: handleOpenBox_resume_def handleOpenBox_failed_def consistent_def fresh_def)
    next
      case (Some r)
      from sc obtain d where d: "scratchCardData cap = Some d" by auto
      obtain items t where dt: "determineTarget r (generateRouletteItems shuffle (prizes d)) u = (items, t)"
        by (cases "determineTarget r (generateRouletteItems shuffle (prizes d)) u")
      have "handleOpenBox_resume cap outcome shuffle u (s\<lparr>inflight := rest\<rparr>)
          = startRouletteSpin cap t items
              (s\<lparr>inflight := [],
                 current := (current s)\<lparr>playingGame := False, gameResult := Some r, rouletteItems := items,
                    winningItem := (if isWinner r \<and> prize r \<noteq> None \<and> t \<noteq> None then t else winningItem (current s)),
                    gameState := spinning\<rparr>\<rparr>)"
        using Pair Some d dt rest
        by (auto simp: handleOpenBox_resume_def handleOpenBox_result_def Let_def)
      also have "consistent \<dots>"
        using f by (intro startRouletteSpin_consistent) simp_all
      finally show ?thesis .
    qed
  qed
qed

lemma filter_remove_nth:
  assumes "k < length ts"
  shows "length (filter P ts) = length (filter P (take k ts @ drop (Suc k) ts)) + (if P (ts ! k) then 1 else 0)"
proof -
  have "ts = take k ts @ ts ! k # drop (Suc k) ts"
    using assms by (rule id_take_nth_drop)
  then have "filter P ts = filter P (take k ts @ ts ! k # drop (Suc k) ts)"
    by simp
  then show ?thesis by simp
qed

lemma timer_fires_consistent:
  assumes "consistent s" and "k < length (timers s)"
  shows "consistent (runTimer (snd (timers s ! k)) (s\<lparr>timers := take k (timers s) @ drop (Suc k) (timers s)\<rparr>))"
proof -
  let ?s = "s\<lparr>timers := take k (timers s) @ drop (Suc k) (timers s)\<rparr>"
  have len: "length (finishTimers s) = length (finishTimers ?s) + (if is_finish (snd (timers s ! k)) then 1 else 0)"
    using filter_remove_nth [OF assms(2), of "\<lambda>t. is_finish (snd t)"]
    by (simp add: finishTimers_def)
  show ?thesis
  proof (cases "snd (timers s ! k)")
    case HideConfetti
    with len have "length (finishTimers ?s) = length (finishTimers s)"
      by (simp add: is_finish_def)
    then have "finishTimers ?s = [] \<longleftrightarrow> finishTimers s = []"
      by (metis length_0_conv)
    with assms(1) HideConfetti \<open>length (finishTimers ?s) = length (finishTimers s)\<close> show ?thesis
      by (simp add: runTimer_def consistent_def fresh_def)
  next
    case (FinishSpin cap)
    with len have l: "length (finishTimers s) = length (finishTimers ?s) + 1"
      by (simp add: is_finish_def)
    with assms(1) have e: "finishTimers ?s = []" and ne: "finishTimers s \<noteq> []"
      by (auto simp: consistent_def)
    with assms(1) have sp: "gameState (current s) = spinning" and i: "inflight s = []"
      and np: "\<not> playingGame (current s)"
      by (auto simp: consistent_def)
    have ft: "finishTimers (x\<lparr>timers := timers ?s @ [(d, HideConfetti)]\<rparr>) = finishTimers ?s" for x d
      by (simp add: finishTimers_def is_finish_def)
    have "consistent (finishSpin cap ?s)"
      using e i np ft
      by (simp add: finishSpin_def refreshUserBalance_def Let_def consistent_def finishTimers_def
          is_finish_def split: option.splits)
    with FinishSpin show ?thesis by (simp add: runTimer_def)
  qed
qed

lemma step_consistent:
  assumes "consistent s" and "step s e = Some s'"
  shows "consistent s'"
proof (cases e)
  case ClickOpenBox
  with assms show ?thesis
    by (auto simp: step_def openBoxButton_def click_open_consistent split: if_splits)
next
  case ClickPlayAgain
  with assms show ?thesis
    by (auto simp: step_def playAgainButton_def click_again_consistent split: if_splits)
next
  case (PlayReturns outcome shuffle u)
  with assms show ?thesis
    by (auto simp: step_def play_returns_consistent split: list.splits)
next
  case (Elapse d)
  with assms show ?thesis
    by (auto simp: step_def consistent_def)
next
  case (TimerFires k)
  with assms show ?thesis
    by (auto simp: step_def timer_fires_consistent split: if_splits)
next
  case (CatalogLoaded sc)
  with assms show ?thesis
    by (auto simp: step_def consistent_def fresh_def)
next
  case (AuthChanged a t)
  with assms show ?thesis
    by (auto simp: step_def consistent_def fresh_def)
qed

lemma run_consistent:
  "consistent s \<Longrightarrow> run s es = Some s' \<Longrightarrow> consistent s'"
proof (induction es arbitrary: s)
  case Nil
  then show ?case by simp
next
  case (Cons e es)
  then show ?case
    by (auto split: option.splits dest: step_consistent)
qed

subsection \<open>Winning flags are justified in every reachable page\<close>

lemma run_append:
  "run s (xs @ ys) = (case run s xs of None \<Rightarrow> None | Some s' \<Rightarrow> run s' ys)"
  by (induction xs arbitrary: s) (auto split: option.splits)

lemma runTimer_keeps:
  "rouletteItems (current (runTimer cb s)) = rouletteItems (current s)"
  "winningItem (current (runTimer cb s)) = winningItem (current s)"
  "gameResult (current (runTimer cb s)) = gameResult (current s)"
  "inflight (runTimer cb s) = inflight s"
  "toasts (runTimer cb s) = toasts s"
  by (cases cb; simp add: runTimer_def finishSpin_def refreshUserBalance_def Let_def
        split: option.splits)+

lemma generated_items_unflagged:
  assumes "permutes shuffle"
  shows "list_all (\<lambda>c. isWinning c = None) (generateRouletteItems shuffle ps)"
  using cells_of_prize by (auto simp: list_all_iff set_generateRouletteItems [OF assms])

lemma determineTarget_no_prize:
  assumes "\<not> (isWinner r \<and> prize r \<noteq> None)"
  shows "fst (determineTarget r items u) = items"
  using assms by (auto simp: determineTarget_def Let_def)

lemma handleOpenBox_flags:
  assumes "flagsJustified s" and "rouletteItems (current s) = []"
  shows "flagsJustified (handleOpenBox cap s)"
  using assms
  by (auto simp: handleOpenBox_def handleOpenBox_failed_def Let_def flagsJustified_def unflagged_def)

lemma handlePlayAgain_flags:
  assumes "flagsJustified s"
  shows "flagsJustified (handlePlayAgain cap s)"
proof (cases "\<not> isAuthenticated cap \<or> playingGame cap \<or> scratchCardData cap = None")
  case True
  with assms show ?thesis by (simp add: handlePlayAgain_def)
next
  case False
  let ?s = "s\<lparr>current := (current s)\<lparr>rouletteItems := [], showConfetti := False,
                                           hasWon := False, totalWinnings := Finite 0,
                                           gameResult := None, winningItem := None,
                                           isSpinning := False, finalRotation := 0\<rparr>\<rparr>"
  have "flagsJustified ?s"
    by (simp add: flagsJustified_def unflagged_def)
  then have "flagsJustified (handleOpenBox cap ?s)"
    by (rule handleOpenBox_flags) simp
  with False show ?thesis by (auto simp: handlePlayAgain_def)
qed

lemma startRouletteSpin_view:
  "rouletteItems (current (startRouletteSpin cap t items s)) = rouletteItems (current s)"
  "winningItem (current (startRouletteSpin cap t items s)) = winningItem (current s)"
  "gameResult (current (startRouletteSpin cap t items s)) = gameResult (current s)"
  "gameState (current (startRouletteSpin cap t items s)) = gameState (current s)"
  "toasts (startRouletteSpin cap t items s) = toasts s"
  "inflight (startRouletteSpin cap t items s) = inflight s"
  using startRouletteSpin_cases [of cap t items s] by auto

lemma play_returns_flags:
  assumes "consistent s" and "inflight s = cap # rest" and "permutes shuffle"
  shows "flagsJustified (handleOpenBox_resume cap outcome shuffle u (s\<lparr>inflight := rest\<rparr>))"
proof -
  from assms have sc: "scratchCardData cap \<noteq> None" and fr: "fresh (current s)"
    by (auto simp: consistent_def)
  show ?thesis
  proof (cases "playGame_settled outcome")
    case (Pair result msg)
    show ?thesis
    proof (cases result)
      case None
      with Pair fr show ?thesis
        by (simp add: handleOpenBox_resume_def handleOpenBox_failed_def flagsJustified_def
            unflagged_def fresh_def)
    next
      case (Some r)
      from sc obtain d where d: "scratchCardData cap = Some d" by auto
      obtain items t where dt: "determineTarget r (generateRouletteItems shuffle (prizes d)) u = (items, t)"
        by (cases "determineTarget r (generateRouletteItems shuffle (prizes d)) u")
      let ?s = "handleOpenBox_resume cap outcome shuffle u (s\<lparr>inflight := rest\<rparr>)"
      have eq: "?s = startRouletteSpin cap t items
              (s\<lparr>inflight := rest,
                 current := (current s)\<lparr>playingGame := False, gameResult := Some r, rouletteItems := items,
                    winningItem := (if isWinner r \<and> prize r \<noteq> None \<and> t \<noteq> None then t else winningItem (current s)),
                    gameState := spinning\<rparr>\<rparr>)"
        using Pair Some d dt
        by (auto simp: handleOpenBox_resume_def handleOpenBox_result_def Let_def)
      show ?thesis
      proof (cases "isWinner r \<and> prize r \<noteq> None")
        case True
        then show ?thesis
          unfolding flagsJustified_def winnerWithPrize_def eq startRouletteSpin_view
          by simp
      next
        case False
        from determineTarget_no_prize [OF False, of "generateRouletteItems shuffle (prizes d)" u] dt
        have "items = generateRouletteItems shuffle (prizes d)" by simp
        with generated_items_unflagged [OF assms(3)]
        have "list_all (\<lambda>c. isWinning c = None) items" by simp
        with False fr show ?thesis
          unfolding flagsJustified_def unflagged_def eq startRouletteSpin_view
          by (auto simp: fresh_def)
      qed
    qed
  qed
qed

lemma step_flags:
  assumes "consistent s" and "flagsJustified s" and "fair e" and "step s e = Some s'"
  shows "flagsJustified s'"
proof (cases e)
  case ClickOpenBox
  from assms ClickOpenBox have "gameState (current s) = idle"
    by (auto simp: step_def openBoxButton_def split: if_splits)
  with assms(1) have "rouletteItems (current s) = []"
    by (auto simp: consistent_def fresh_def)
  with assms ClickOpenBox show ?thesis
    by (auto simp: step_def handleOpenBox_flags split: if_splits)
next
  case ClickPlayAgain
  with assms show ?thesis
    by (auto simp: step_def handlePlayAgain_flags split: if_splits)
next
  case (PlayReturns outcome shuffle u)
  with assms show ?thesis
    by (auto simp: step_def fair_def play_returns_flags split: list.splits)
next
  case (Elapse d)
  with assms show ?thesis
    by (auto simp: step_def flagsJustified_def unflagged_def winnerWithPrize_def)
next
  case (TimerFires k)
  with assms show ?thesis
    by (auto simp: step_def flagsJustified_def unflagged_def winnerWithPrize_def runTimer_keeps
        split: if_splits)
next
  case (CatalogLoaded sc)
  with assms show ?thesis
    by (auto simp: step_def flagsJustified_def unflagged_def winnerWithPrize_def)
next
  case (AuthChanged a t)
  with assms show ?thesis
    by (auto simp: step_def flagsJustified_def unflagged_def winnerWithPrize_def)
qed

lemma run_flags:
  "consistent s \<Longrightarrow> flagsJustified s \<Longrightarrow> list_all fair es \<Longrightarrow> run s es = Some s' \<Longrightarrow>
     flagsJustified s'"
proof (induction es arbitrary: s)
  case Nil
  then show ?case by simp
next
  case (Cons e es)
  from Cons.prems obtain s1 where s1: "step s e = Some s1" and r: "run s1 es = Some s'"
    by (auto split: option.splits)
  from Cons.prems have "fair e" "list_all fair es" by simp_all
  with Cons.prems s1 have "consistent s1" "flagsJustified s1"
    by (auto intro: step_consistent step_flags)
  with Cons.IH r \<open>list_all fair es\<close> show ?case by blast
qed

lemma flagsJustified_mounted: "flagsJustified (mounted rid auth tok)"
  by (simp add: flagsJustified_def unflagged_def mounted_def)

subsection \<open>The state machine\<close>

lemma reachable_consistent:
  "run (mounted rid auth tok) es = Some s \<Longrightarrow> consistent s"
  using consistent_mounted by (rule run_consistent)

text \<open>
  Claim C8. In every page reachable from the mounted page whose state is spinning, the
  render shows neither button, so a click for a new spin or a replay has no successor and
  no play request is in flight; whatever event does happen leaves no request in flight,
  and leaves the state spinning unless it is a timer firing, which leaves it spinning or
  completed.
\<close>

theorem spinning_accepts_no_action:
  assumes "run (mounted rid auth tok) es = Some s" and "gameState (current s) = spinning"
  shows "step s ClickOpenBox = None \<and> step s ClickPlayAgain = None \<and> inflight s = [] \<and>
         (step s e = Some s' \<longrightarrow>
            inflight s' = [] \<and>
            (gameState (current s') = spinning \<or>
             (\<exists>k. e = TimerFires k) \<and> gameState (current s') = completed))"
proof -
  have c: "consistent s"
    using assms(1) by (rule reachable_consistent)
  with assms(2) have i: "inflight s = []"
    by (auto simp: consistent_def)
  have clicks: "step s ClickOpenBox = None \<and> step s ClickPlayAgain = None"
    using assms(2) by (simp add: step_def openBoxButton_def playAgainButton_def)
  have "inflight s' = [] \<and>
            (gameState (current s') = spinning \<or>
             (\<exists>k. e = TimerFires k) \<and> gameState (current s') = completed)"
    if st: "step s e = Some s'"
  proof (cases e)
    case ClickOpenBox
    with st clicks show ?thesis by simp
  next
    case ClickPlayAgain
    with st clicks show ?thesis by simp
  next
    case (PlayReturns outcome shuffle u)
    with st i show ?thesis by (simp add: step_def)
  next
    case (Elapse d)
    with st i assms(2) show ?thesis by (auto simp: step_def)
  next
    case (TimerFires k)
    with st have s': "s' = runTimer (snd (timers s ! k))
          (s\<lparr>timers := take k (timers s) @ drop (Suc k) (timers s)\<rparr>)"
      by (auto simp: step_def split: if_splits)
    have "gameState (current s') = spinning \<or> gameState (current s') = completed"
      unfolding s' using assms(2)
      by (cases "snd (timers s ! k)")
        (simp_all add: runTimer_def finishSpin_def refreshUserBalance_def Let_def split: option.splits)
    with TimerFires i show ?thesis
      by (auto simp: s' runTimer_keeps)
  next
    case (CatalogLoaded sc)
    with st i assms(2) show ?thesis by (auto simp: step_def)
  next
    case (AuthChanged a t)
    with st i assms(2) show ?thesis by (auto simp: step_def)
  qed
  with clicks i show ?thesis by blast
qed

theorem spinning_accepts_no_action_witness:
  "run ex_page (ex_losing_spin @ [Elapse 4000]) \<noteq> None \<and>
   gameState (current (the (run ex_page (ex_losing_spin @ [Elapse 4000])))) = spinning \<and>
   step (the (run ex_page (ex_losing_spin @ [Elapse 4000]))) ClickOpenBox = None \<and>
   step (the (run ex_page (ex_losing_spin @ [Elapse 4000]))) ClickPlayAgain = None \<and>
   step (the (run ex_page (ex_losing_spin @ [Elapse 4000]))) (TimerFires 0) \<noteq> None \<and>
   gameState (current (the (step (the (run ex_page (ex_losing_spin @ [Elapse 4000]))) (TimerFires 0))))
     = completed \<and>
   inflight (the (step (the (run ex_page (ex_losing_spin @ [Elapse 4000]))) (TimerFires 0))) = []"
proof -
  let ?s = "the (run ex_page (ex_losing_spin @ [Elapse 4000]))"
  let ?s' = "the (step ?s (TimerFires 0))"
  have r: "run ex_page (ex_losing_spin @ [Elapse 4000]) \<noteq> None"
    by (simp add: model_defs parseFloat_examples)
  have g: "gameState (current ?s) = spinning"
    by (simp add: model_defs parseFloat_examples)
  have t: "step ?s (TimerFires 0) \<noteq> None"
    by (simp add: model_defs parseFloat_examples)
  have g': "gameState (current ?s') = completed"
    by (simp add: model_defs parseFloat_examples)
  from r have r': "run (mounted (Some ''7'') True (Some ''token'')) (ex_losing_spin @ [Elapse 4000]) = Some ?s"
    by (simp add: ex_page_def)
  from t have t': "step ?s (TimerFires 0) = Some ?s'"
    by simp
  from spinning_accepts_no_action [OF r' g, of "TimerFires 0" ?s'] t' r g t g'
  show ?thesis by simp
qed

lemma or_string_nonempty: "d \<noteq> [] \<Longrightarrow> or_string m d \<noteq> []"
  by (cases m) (auto simp: or_string_def)

lemma msg_default_nonempty: "msg_default \<noteq> []"
  by (simp add: msg_default_def)

text \<open>
  Claim C9. In every reachable page, when the play request fails (an exception of
  \<^verbatim>\<open>fetch\<close> or of the parsing of its reply) or returns a business error (a reply with
  \<^verbatim>\<open>success\<close> false, whatever else it carries), or returns a reply without a result
  object, the state becomes idle, one non-empty error toast is added (the connection
  message for an exception, the reply's message for a business error, the default message
  when there is none), no timer is added and no spin-ending timer is pending, and the page
  is fresh: empty reel, no landing cell, no win flag, winnings 0, no result, no animation.
  The same holds when \<^verbatim>\<open>playGame\<close> gives up before sending, for want of a route id or
  a token.
\<close>

theorem failed_play_returns_to_idle:
  assumes "run (mounted rid auth tok) es = Some s"
  shows "(step s (PlayReturns outcome shuffle u) = Some s' \<and>
          (outcome = Threw \<or>
           (\<exists>d. outcome = Replied d \<and> (\<not> resp_success d \<or> resp_result d = None))) \<longrightarrow>
            gameState (current s') = idle \<and>
            toasts s' = toasts s @
              [case outcome of
                 Threw \<Rightarrow> msg_connection
               | Replied d \<Rightarrow>
                   if \<not> resp_success d \<and> resp_message d \<noteq> [] then resp_message d
                   else msg_default] \<and>
            last (toasts s') \<noteq> [] \<and>
            rouletteItems (current s') = [] \<and> winningItem (current s') = None \<and>
            \<not> hasWon (current s') \<and> totalWinnings (current s') = Finite 0 \<and>
            gameResult (current s') = None \<and> \<not> isSpinning (current s') \<and>
            fresh (current s') \<and> timers s' = timers s \<and> finishTimers s' = [] \<and>
            inflight s' = [] \<and> \<not> playingGame (current s')) \<and>
         (step s ClickOpenBox = Some s'' \<and>
          (falsy (router_id (current s)) \<or> falsy (token (current s))) \<longrightarrow>
            gameState (current s'') = idle \<and> toasts s'' = toasts s @ [msg_missing_auth] \<and>
            rouletteItems (current s'') = [] \<and> winningItem (current s'') = None \<and>
            \<not> hasWon (current s'') \<and> totalWinnings (current s'') = Finite 0 \<and>
            gameResult (current s'') = None \<and> \<not> isSpinning (current s'') \<and>
            fresh (current s'') \<and> timers s'' = timers s \<and> finishTimers s'' = [] \<and>
            inflight s'' = [] \<and> \<not> playingGame (current s''))"
proof -
  let ?m = "case outcome of
              Threw \<Rightarrow> msg_connection
            | Replied d \<Rightarrow>
                if \<not> resp_success d \<and> resp_message d \<noteq> [] then resp_message d
                else msg_default"
  have c: "consistent s"
    using assms by (rule reachable_consistent)
  have mc: "msg_connection \<noteq> []"
    by (simp add: msg_connection_def)
  have a: "gameState (current s') = idle \<and> toasts s' = toasts s @ [?m] \<and>
            last (toasts s') \<noteq> [] \<and>
            rouletteItems (current s') = [] \<and> winningItem (current s') = None \<and>
            \<not> hasWon (current s') \<and> totalWinnings (current s') = Finite 0 \<and>
            gameResult (current s') = None \<and> \<not> isSpinning (current s') \<and>
            fresh (current s') \<and> timers s' = timers s \<and> finishTimers s' = [] \<and>
            inflight s' = [] \<and> \<not> playingGame (current s')"
    if st: "step s (PlayReturns outcome shuffle u) = Some s'"
      and f: "outcome = Threw \<or>
              (\<exists>d. outcome = Replied d \<and> (\<not> resp_success d \<or> resp_result d = None))"
  proof -
    from st obtain cap rest where i: "inflight s = cap # rest"
      and s': "s' = handleOpenBox_resume cap outcome shuffle u (s\<lparr>inflight := rest\<rparr>)"
      by (auto simp: step_def split: list.splits)
    from c i have rest: "rest = []" and fr: "fresh (current s)" and ft: "finishTimers s = []"
      by (auto simp: consistent_def)
    have "\<exists>m. playGame_settled outcome = (None, m) \<and> or_string m msg_default = ?m"
    proof (cases outcome)
      case Threw
      then show ?thesis
        using mc by (simp add: playGame_settled_def or_string_def)
    next
      case (Replied d)
      with f have "\<not> resp_success d \<or> resp_result d = None"
        by simp
      with Replied show ?thesis
        by (auto simp: playGame_settled_def or_string_def)
    qed
    then obtain m where m: "playGame_settled outcome = (None, m)"
      and om: "or_string m msg_default = ?m"
      by blast
    have eq: "s' = s\<lparr>inflight := [],
                     current := (current s)\<lparr>playingGame := False, gameState := idle\<rparr>,
                     toasts := toasts s @ [?m]\<rparr>"
      by (simp add: s' rest m om handleOpenBox_resume_def handleOpenBox_failed_def)
    have ne: "?m \<noteq> []"
      using mc msg_default_nonempty by (cases outcome) auto
    from fr have fr': "fresh ((current s)\<lparr>playingGame := False, gameState := idle\<rparr>)"
      by (simp add: fresh_def)
    from fr' ft ne show ?thesis
      unfolding eq by (simp add: fresh_def)
  qed
  have b: "gameState (current s'') = idle \<and> toasts s'' = toasts s @ [msg_missing_auth] \<and>
            rouletteItems (current s'') = [] \<and> winningItem (current s'') = None \<and>
            \<not> hasWon (current s'') \<and> totalWinnings (current s'') = Finite 0 \<and>
            gameResult (current s'') = None \<and> \<not> isSpinning (current s'') \<and>
            fresh (current s'') \<and> timers s'' = timers s \<and> finishTimers s'' = [] \<and>
            inflight s'' = [] \<and> \<not> playingGame (current s'')"
    if st: "step s ClickOpenBox = Some s''"
      and na: "falsy (router_id (current s)) \<or> falsy (token (current s))"
  proof -
    from st have btn: "openBoxButton (current s)" and s'': "s'' = handleOpenBox (current s) s"
      by (auto simp: step_def split: if_splits)
    from btn have id: "gameState (current s) = idle" and au: "isAuthenticated (current s)"
      and sc: "scratchCardData (current s) \<noteq> None"
      by (auto simp: openBoxButton_def)
    from c id have i: "inflight s = []" and fr: "fresh (current s)" and ft: "finishTimers s = []"
      and np: "\<not> playingGame (current s)"
      by (auto simp: consistent_def)
    from na have na': "falsy (router_id (current s)) \<or> falsy (Some (or_string (token (current s)) []))"
      by (auto simp: falsy_def or_string_def split: option.splits)
    have "or_string (Some msg_missing_auth) msg_default = msg_missing_auth"
      by (simp add: or_string_def msg_missing_auth_def)
    with au sc np na' i fr ft show ?thesis
      by (auto simp: s'' handleOpenBox_def handleOpenBox_failed_def Let_def fresh_def)
  qed
  from a b show ?thesis by blast
qed

theorem failed_play_returns_to_idle_witness:
  "run ex_page (ex_catalog_only @ [ClickOpenBox]) \<noteq> None \<and>
   gameState (current (the (run ex_page (ex_catalog_only @ [ClickOpenBox])))) = loading \<and>
   step (the (run ex_page (ex_catalog_only @ [ClickOpenBox]))) (PlayReturns ex_refused rev (1 / 2)) \<noteq> None \<and>
   gameState (current (the (step (the (run ex_page (ex_catalog_only @ [ClickOpenBox])))
                                 (PlayReturns ex_refused rev (1 / 2))))) = idle \<and>
   fresh (current (the (step (the (run ex_page (ex_catalog_only @ [ClickOpenBox])))
                             (PlayReturns ex_refused rev (1 / 2))))) \<and>
   toasts (the (step (the (run ex_page (ex_catalog_only @ [ClickOpenBox])))
                     (PlayReturns ex_refused rev (1 / 2)))) = [''Saldo insuficiente''] \<and>
   step (the (run ex_page (ex_catalog_only @ [ClickOpenBox]))) (PlayReturns Threw rev (1 / 2)) \<noteq> None \<and>
   gameState (current (the (step (the (run ex_page (ex_catalog_only @ [ClickOpenBox])))
                                 (PlayReturns Threw rev (1 / 2))))) = idle \<and>
   fresh (current (the (step (the (run ex_page (ex_catalog_only @ [ClickOpenBox])))
                             (PlayReturns Threw rev (1 / 2))))) \<and>
   toasts (the (step (the (run ex_page (ex_catalog_only @ [ClickOpenBox])))
                     (PlayReturns Threw rev (1 / 2)))) = [msg_connection] \<and>
   run (mounted (Some ''7'') True None) ex_catalog_only \<noteq> None \<and>
   falsy (token (current (the (run (mounted (Some ''7'') True None) ex_catalog_only)))) \<and>
   step (the (run (mounted (Some ''7'') True None) ex_catalog_only)) ClickOpenBox \<noteq> None \<and>
   gameState (current (the (step (the (run (mounted (Some ''7'') True None) ex_catalog_only))
                                 ClickOpenBox))) = idle \<and>
   toasts (the (step (the (run (mounted (Some ''7'') True None) ex_catalog_only)) ClickOpenBox))
     = [msg_missing_auth]"
proof -
  let ?s = "the (run ex_page (ex_catalog_only @ [ClickOpenBox]))"
  let ?r' = "the (step ?s (PlayReturns ex_refused rev (1 / 2)))"
  let ?s' = "the (step ?s (PlayReturns Threw rev (1 / 2)))"
  let ?t = "the (run (mounted (Some ''7'') True None) ex_catalog_only)"
  let ?t' = "the (step ?t ClickOpenBox)"
  have r: "run ex_page (ex_catalog_only @ [ClickOpenBox]) \<noteq> None"
    by (simp add: model_defs parseFloat_examples)
  have ld: "gameState (current ?s) = loading"
    by (simp add: model_defs parseFloat_examples)
  have sr: "step ?s (PlayReturns ex_refused rev (1 / 2)) \<noteq> None"
    by (simp add: model_defs parseFloat_examples)
  have st: "step ?s (PlayReturns Threw rev (1 / 2)) \<noteq> None"
    by (simp add: model_defs parseFloat_examples)
  have ts: "toasts ?s = []"
    by (simp add: model_defs parseFloat_examples)
  have rt: "run (mounted (Some ''7'') True None) ex_catalog_only \<noteq> None"
    by (simp add: model_defs parseFloat_examples)
  have ft: "falsy (token (current ?t))"
    by (simp add: model_defs parseFloat_examples)
  have stt: "step ?t ClickOpenBox \<noteq> None"
    by (simp add: model_defs parseFloat_examples)
  have tt: "toasts ?t = []"
    by (simp add: model_defs parseFloat_examples)
  have bus: "ex_refused = Threw \<or>
      (\<exists>d. ex_refused = Replied d \<and> (\<not> resp_success d \<or> resp_result d = None))"
    by (simp add: ex_refused_def)
  have thr: "Threw = Threw \<or>
      (\<exists>d. Threw = Replied d \<and> (\<not> resp_success d \<or> resp_result d = None))"
    by simp
  have rm: "(case ex_refused of
               Threw \<Rightarrow> msg_connection
             | Replied d \<Rightarrow>
                 if \<not> resp_success d \<and> resp_message d \<noteq> [] then resp_message d
                 else msg_default) = ''Saldo insuficiente''"
    by (simp add: ex_refused_def)
  from r have r': "run (mounted (Some ''7'') True (Some ''token'')) (ex_catalog_only @ [ClickOpenBox]) = Some ?s"
    by (simp add: ex_page_def)
  from sr have sr': "step ?s (PlayReturns ex_refused rev (1 / 2)) = Some ?r'"
    by simp
  from st have st': "step ?s (PlayReturns Threw rev (1 / 2)) = Some ?s'"
    by simp
  from rt have rt': "run (mounted (Some ''7'') True None) ex_catalog_only = Some ?t"
    by simp
  from stt have stt': "step ?t ClickOpenBox = Some ?t'"
    by simp
  from failed_play_returns_to_idle [OF r', where outcome = ex_refused and shuffle = rev and u = "1 / 2"
      and s' = ?r' and s'' = ?r'] sr' bus
  have "gameState (current ?r') = idle \<and> fresh (current ?r') \<and>
        toasts ?r' = toasts ?s @
          [case ex_refused of
             Threw \<Rightarrow> msg_connection
           | Replied d \<Rightarrow>
               if \<not> resp_success d \<and> resp_message d \<noteq> [] then resp_message d
               else msg_default]"
    by blast
  then have a: "gameState (current ?r') = idle \<and> fresh (current ?r') \<and>
        toasts ?r' = [''Saldo insuficiente'']"
    by (simp only: rm ts append_Nil)
  from failed_play_returns_to_idle [OF r', where outcome = Threw and shuffle = rev and u = "1 / 2"
      and s' = ?s' and s'' = ?s'] st' thr
  have "gameState (current ?s') = idle \<and> fresh (current ?s') \<and>
        toasts ?s' = toasts ?s @ [case Threw of Threw \<Rightarrow> msg_connection
             | Replied d \<Rightarrow>
                 if \<not> resp_success d \<and> resp_message d \<noteq> [] then resp_message d
                 else msg_default]"
    by blast
  then have b: "gameState (current ?s') = idle \<and> fresh (current ?s') \<and>
        toasts ?s' = [msg_connection]"
    by (simp add: ts)
  from failed_play_returns_to_idle [OF rt', where outcome = Threw and shuffle = rev and u = "1 / 2"
      and s' = ?t' and s'' = ?t'] ft stt'
  have d: "gameState (current ?t') = idle \<and> toasts ?t' = toasts ?t @ [msg_missing_auth]"
    by blast
  from a b d r ld sr st rt ft stt tt show ?thesis by simp
qed

text \<open>
  Claim C10. In every page reachable through fair events whose current result is not a
  win, no winning item is recorded and no cell of the reel carries the winning flag.
  Freshly expanded cells carry no flag, the reconciler leaves the reel as it is for a
  result that is not a win, and for a winning result without a matching cell it leaves the
  reel as it is and returns no target.
\<close>

theorem no_flag_without_win:
  assumes "run (mounted rid auth tok) es = Some s" and "list_all fair es"
  shows "(gameResult (current s) = Some r \<and> \<not> isWinner r \<longrightarrow>
            winningItem (current s) = None \<and>
            list_all (\<lambda>c. isWinning c = None) (rouletteItems (current s))) \<and>
         (permutes shuffle \<longrightarrow>
            list_all (\<lambda>c. isWinning c = None) (generateRouletteItems shuffle ps)) \<and>
         (\<not> isWinner r' \<longrightarrow> fst (determineTarget r' items u) = items) \<and>
         (isWinner r' \<and> prize r' = Some w \<and> \<not> list_ex (matchesPrize w) items \<longrightarrow>
            determineTarget r' items u = (items, None))"
proof -
  have "consistent (mounted rid auth tok)" "flagsJustified (mounted rid auth tok)"
    by (rule consistent_mounted, rule flagsJustified_mounted)
  then have "flagsJustified s"
    using assms(2,1) by (rule run_flags)
  then have a: "gameResult (current s) = Some r \<and> \<not> isWinner r \<longrightarrow>
            winningItem (current s) = None \<and>
            list_all (\<lambda>c. isWinning c = None) (rouletteItems (current s))"
    by (auto simp: flagsJustified_def unflagged_def winnerWithPrize_def)
  have b: "\<not> isWinner r' \<longrightarrow> fst (determineTarget r' items u) = items"
    by (simp add: determineTarget_no_prize)
  have c: "isWinner r' \<and> prize r' = Some w \<and> \<not> list_ex (matchesPrize w) items \<longrightarrow>
            determineTarget r' items u = (items, None)"
    by (auto simp: list_ex_iff intro: determineTarget_winner_missing)
  from a b c generated_items_unflagged [of shuffle ps] show ?thesis by blast
qed

theorem no_flag_without_win_witness:
  "run ex_page ex_losing_spin \<noteq> None \<and> list_all fair ex_losing_spin \<and>
   gameResult (current (the (run ex_page ex_losing_spin))) = Some (ex_result False ''0'' None) \<and>
   \<not> isWinner (ex_result False ''0'' None) \<and>
   winningItem (current (the (run ex_page ex_losing_spin))) = None \<and>
   list_all (\<lambda>c. isWinning c = None) (rouletteItems (current (the (run ex_page ex_losing_spin)))) \<and>
   length (rouletteItems (current (the (run ex_page ex_losing_spin)))) = 8 \<and>
   permutes rev \<and>
   list_all (\<lambda>c. isWinning c = None)
     (generateRouletteItems rev [ex_prize ''a'' ''MONEY'' ''5'' None True]) \<and>
   isWinner (ex_result True ''2500'' (Some (ex_won ''z'' ''MONEY'' ''2500'' None))) \<and>
   prize (ex_result True ''2500'' (Some (ex_won ''z'' ''MONEY'' ''2500'' None)))
     = Some (ex_won ''z'' ''MONEY'' ''2500'' None) \<and>
   \<not> list_ex (matchesPrize (ex_won ''z'' ''MONEY'' ''2500'' None))
       (generateRouletteItems rev [ex_prize ''a'' ''MONEY'' ''5'' None True]) \<and>
   determineTarget (ex_result True ''2500'' (Some (ex_won ''z'' ''MONEY'' ''2500'' None)))
       (generateRouletteItems rev [ex_prize ''a'' ''MONEY'' ''5'' None True]) 0
     = (generateRouletteItems rev [ex_prize ''a'' ''MONEY'' ''5'' None True], None) \<and>
   fst (determineTarget (ex_result False ''0'' None)
       (generateRouletteItems rev [ex_prize ''a'' ''MONEY'' ''5'' None True]) 0)
     = generateRouletteItems rev [ex_prize ''a'' ''MONEY'' ''5'' None True]"
proof -
  let ?s = "the (run ex_page ex_losing_spin)"
  let ?lose = "ex_result False ''0'' None"
  let ?win = "ex_result True ''2500'' (Some (ex_won ''z'' ''MONEY'' ''2500'' None))"
  let ?reel = "generateRouletteItems rev [ex_prize ''a'' ''MONEY'' ''5'' None True]"
  have r: "run ex_page ex_losing_spin \<noteq> None"
    by (simp add: model_defs parseFloat_examples)
  have fair: "list_all fair ex_losing_spin"
    by (simp add: ex_losing_spin_def fair_def permutes_rev)
  have g: "gameResult (current ?s) = Some ?lose"
    by (simp add: model_defs parseFloat_examples)
  have l: "\<not> isWinner ?lose"
    by (simp add: ex_result_def)
  have n: "length (rouletteItems (current ?s)) = 8"
    by (simp add: model_defs parseFloat_examples)
  have w: "isWinner ?win" "prize ?win = Some (ex_won ''z'' ''MONEY'' ''2500'' None)"
    by (simp_all add: ex_result_def)
  have m: "\<not> list_ex (matchesPrize (ex_won ''z'' ''MONEY'' ''2500'' None)) ?reel"
    by (simp add: model_defs parseFloat_examples)
  from r have r': "run (mounted (Some ''7'') True (Some ''token'')) ex_losing_spin = Some ?s"
    by (simp add: ex_page_def)
  from no_flag_without_win [OF r' fair, where r = ?lose and shuffle = rev
      and ps = "[ex_prize ''a'' ''MONEY'' ''5'' None True]" and r' = ?win and items = ?reel
      and w = "ex_won ''z'' ''MONEY'' ''2500'' None" and u = 0] g l permutes_rev w m
  have a: "winningItem (current ?s) = None \<and>
           list_all (\<lambda>c. isWinning c = None) (rouletteItems (current ?s)) \<and>
           list_all (\<lambda>c. isWinning c = None) ?reel \<and>
           determineTarget ?win ?reel 0 = (?reel, None)"
    by blast
  from no_flag_without_win [OF r' fair, where r = ?lose and shuffle = rev
      and ps = "[ex_prize ''a'' ''MONEY'' ''5'' None True]" and r' = ?lose and items = ?reel
      and w = "ex_won ''z'' ''MONEY'' ''2500'' None" and u = 0] l
  have b: "fst (determineTarget ?lose ?reel 0) = ?reel"
    by blast
  from a b r fair g l n permutes_rev w m show ?thesis
    by (intro conjI) (elim conjE, assumption)+
qed

subsection \<open>Spins that do not end as the result says\<close>

text \<open>
  What the callback of line 368 shows depends on the result its closure captured, not on
  the result the page holds when the timer fires.
\<close>

lemma finishSpin_reads_capture:
  "hasWon (current (finishSpin cap s)) =
     (hasWon (current s) \<or> (case gameResult cap of None \<Rightarrow> False | Some g \<Rightarrow> isWinner g))"
  "totalWinnings (current (finishSpin cap s)) =
     (case gameResult cap of
        None \<Rightarrow> totalWinnings (current s)
      | Some g \<Rightarrow> if isWinner g then parseFloat (amountWon g) else totalWinnings (current s))"
  "gameState (current (finishSpin cap s)) = completed"
  "gameResult (current (finishSpin cap s)) = gameResult (current s)"
  by (simp_all add: finishSpin_def refreshUserBalance_def Let_def split: option.splits)

text \<open>
  Claim C1, on the specification's end-to-end scenario: a catalog of one \<^verbatim>\<open>MONEY\<close>
  prize of value 1500, and a winning result for that prize with \<^verbatim>\<open>amountWon = '1500'\<close>,
  on the first spin after mounting. The spin-ending timer is due 4000 ms after the result
  arrives and cannot fire at 3999 ms. When it fires the state is completed, the landing
  cell is the 1500 cell and the page holds the winning result, but the win flag is unset
  and the displayed winnings are 0, not 1500: the callback was created by the render the
  click came from, in which \<^verbatim>\<open>gameResult\<close> (line 147) was still null, and
  \<^verbatim>\<open>setGameResult\<close> (line 308) does not change it. For the same reason a replay shows
  the result of the spin before it: after that winning spin, a losing replay ends with the
  win flag set and winnings 1500.
\<close>

theorem first_winning_spin_shows_no_win:
  "map_option (\<lambda>s. (gameState (current s), map fst (timers s), now s))
     (run ex_page
        [CatalogLoaded (ex_card [ex_prize ''a'' ''MONEY'' ''1500'' None True]),
         ClickOpenBox,
         PlayReturns (ex_reply (ex_result True ''1500'' (Some (ex_won ''a'' ''MONEY'' ''1500'' None)))) id 0])
     = Some (spinning, [4000], 0) \<and>
   run ex_page
        [CatalogLoaded (ex_card [ex_prize ''a'' ''MONEY'' ''1500'' None True]),
         ClickOpenBox,
         PlayReturns (ex_reply (ex_result True ''1500'' (Some (ex_won ''a'' ''MONEY'' ''1500'' None)))) id 0,
         Elapse 3999,
         TimerFires 0]
     = None \<and>
   map_option (\<lambda>s. (gameState (current s), hasWon (current s), totalWinnings (current s),
                     map_option isWinner (gameResult (current s)),
                     map_option amountWon (gameResult (current s)),
                     map item_value (rouletteItems (current s)),
                     map_option item_value (winningItem (current s)), now s))
     (run ex_page
        [CatalogLoaded (ex_card [ex_prize ''a'' ''MONEY'' ''1500'' None True]),
         ClickOpenBox,
         PlayReturns (ex_reply (ex_result True ''1500'' (Some (ex_won ''a'' ''MONEY'' ''1500'' None)))) id 0,
         Elapse 4000,
         TimerFires 0])
     = Some (completed, False, Finite 0, Some True, Some ''1500'', [''1500''], Some ''1500'', 4000) \<and>
   parseFloat ''1500'' = Finite 1500 \<and>
   map_option (\<lambda>s. (gameState (current s), hasWon (current s), totalWinnings (current s),
                     map_option isWinner (gameResult (current s))))
     (run ex_page
        [CatalogLoaded (ex_card [ex_prize ''a'' ''MONEY'' ''1500'' None True]),
         ClickOpenBox,
         PlayReturns (ex_reply (ex_result True ''1500'' (Some (ex_won ''a'' ''MONEY'' ''1500'' None)))) id 0,
         Elapse 4000,
         TimerFires 0,
         ClickPlayAgain,
         PlayReturns (ex_reply (ex_result False ''0'' None)) id 0,
         Elapse 4000,
         TimerFires 0])
     = Some (completed, True, Finite 1500, Some False)"
  by (simp add: model_defs parseFloat_examples)

text \<open>
  The concrete scenario is no accident: every spin started from the idle page, whatever
  the catalog, the result and the randomness, ends its timer without the win flag and with
  winnings 0, since the idle page holds no result for the closure to capture.
\<close>

lemma startRouletteSpin_win_data:
  "hasWon (current (startRouletteSpin cap t items s)) = hasWon (current s)"
  "totalWinnings (current (startRouletteSpin cap t items s)) = totalWinnings (current s)"
  "set (timers (startRouletteSpin cap t items s)) \<subseteq> set (timers s) \<union> {(now s + 4000, FinishSpin cap)}"
  using startRouletteSpin_cases [of cap t items s] by auto

lemma handleOpenBox_resume_win_data:
  "hasWon (current (handleOpenBox_resume cap outcome shuffle u s)) = hasWon (current s)"
  "totalWinnings (current (handleOpenBox_resume cap outcome shuffle u s)) = totalWinnings (current s)"
  "set (timers (handleOpenBox_resume cap outcome shuffle u s))
     \<subseteq> set (timers s) \<union> {(now s + 4000, FinishSpin cap)}"
  by (auto simp: handleOpenBox_resume_def handleOpenBox_result_def handleOpenBox_failed_def Let_def
      startRouletteSpin_win_data(1,2)
      split: prod.splits option.splits dest: subsetD [OF startRouletteSpin_win_data(3)])

lemma spin_from_idle_never_shows_win:
  assumes "run (mounted rid auth tok) es = Some s" and "gameState (current s) = idle"
    and "run s [ClickOpenBox, PlayReturns outcome shuffle u, Elapse d, TimerFires k] = Some s'"
  shows "\<not> hasWon (current s') \<and> totalWinnings (current s') = Finite 0"
proof -
  let ?cap = "current s"
  have c: "consistent s"
    using assms(1) by (rule reachable_consistent)
  with assms(2) have fr: "fresh ?cap" and i: "inflight s = []" and ft: "finishTimers s = []"
    by (auto simp: consistent_def)
  from fr have nr: "gameResult ?cap = None"
    by (simp add: fresh_def)
  from ft have hide: "snd t = HideConfetti" if "t \<in> set (timers s)" for t
    using that by (cases "snd t") (auto simp: finishTimers_def filter_empty_conv is_finish_def)
  from assms(3) obtain s1 s2 s3 where s1: "step s ClickOpenBox = Some s1"
    and s2: "step s1 (PlayReturns outcome shuffle u) = Some s2"
    and s3: "step s2 (Elapse d) = Some s3"
    and s4: "step s3 (TimerFires k) = Some s'"
    by (auto split: option.splits)
  from s1 have s1': "s1 = handleOpenBox ?cap s"
    by (auto simp: step_def split: if_splits)
  from s2 obtain cap rest where i1: "inflight s1 = cap # rest"
    and s2': "s2 = handleOpenBox_resume cap outcome shuffle u (s1\<lparr>inflight := rest\<rparr>)"
    by (auto simp: step_def split: list.splits)
  from i1 i have cap: "cap = ?cap" and w1: "\<not> hasWon (current s1)"
    and t1: "totalWinnings (current s1) = Finite 0" and tm1: "timers s1 = timers s"
    unfolding s1'
    by (auto simp: handleOpenBox_def handleOpenBox_failed_def Let_def split: if_splits)
  from w1 t1 have w2: "\<not> hasWon (current s2)" and t2: "totalWinnings (current s2) = Finite 0"
    by (simp_all add: s2' handleOpenBox_resume_win_data(1,2))
  have tm2: "snd t = HideConfetti \<or> snd t = FinishSpin ?cap" if "t \<in> set (timers s2)" for t
  proof -
    from that handleOpenBox_resume_win_data(3) [of cap outcome shuffle u "s1\<lparr>inflight := rest\<rparr>"]
    have "t \<in> set (timers s) \<or> t = (now s1 + 4000, FinishSpin ?cap)"
      by (auto simp: s2' tm1 cap)
    then show ?thesis
    proof
      assume "t \<in> set (timers s)"
      from hide [OF this] show ?thesis by (rule disjI1)
    next
      assume "t = (now s1 + 4000, FinishSpin ?cap)"
      then show ?thesis by simp
    qed
  qed
  from s3 have s3': "s3 = s2\<lparr>now := now s2 + d\<rparr>"
    by (simp add: step_def)
  from s4 have k: "k < length (timers s3)"
    and s4': "s' = runTimer (snd (timers s3 ! k))
        (s3\<lparr>timers := take k (timers s3) @ drop (Suc k) (timers s3)\<rparr>)"
    by (auto simp: step_def split: if_splits)
  from k have "timers s3 ! k \<in> set (timers s2)"
    by (simp add: s3')
  from tm2 [OF this] show ?thesis
  proof
    assume "snd (timers s3 ! k) = HideConfetti"
    with w2 t2 show ?thesis
      by (simp add: s4' s3' runTimer_def)
  next
    assume "snd (timers s3 ! k) = FinishSpin ?cap"
    with w2 t2 nr show ?thesis
      by (simp add: s4' s3' runTimer_def finishSpin_reads_capture)
  qed
qed

text \<open>
  A spinning page with no request in flight and no spin-ending timer stays so, whatever
  happens.
\<close>

lemma stuck_step:
  assumes "gameState (current s) = spinning" and "inflight s = []" and "finishTimers s = []"
    and "step s e = Some s'"
  shows "gameState (current s') = spinning \<and> inflight s' = [] \<and> finishTimers s' = [] \<and>
         winningItem (current s') = winningItem (current s) \<and> toasts s' = toasts s \<and>
         isSpinning (current s') = isSpinning (current s) \<and> hasWon (current s') = hasWon (current s)"
proof (cases e)
  case ClickOpenBox
  with assms show ?thesis by (simp add: step_def openBoxButton_def)
next
  case ClickPlayAgain
  with assms show ?thesis by (simp add: step_def playAgainButton_def)
next
  case (PlayReturns outcome shuffle u)
  with assms show ?thesis by (simp add: step_def)
next
  case (Elapse d)
  with assms show ?thesis by (auto simp: step_def)
next
  case (TimerFires k)
  with assms(4) have k: "k < length (timers s)"
    and s': "s' = runTimer (snd (timers s ! k))
          (s\<lparr>timers := take k (timers s) @ drop (Suc k) (timers s)\<rparr>)"
    by (auto simp: step_def split: if_splits)
  let ?s = "s\<lparr>timers := take k (timers s) @ drop (Suc k) (timers s)\<rparr>"
  from filter_remove_nth [OF k, of "\<lambda>t. is_finish (snd t)"] assms(3)
  have nf: "\<not> is_finish (snd (timers s ! k))" and e: "finishTimers ?s = []"
    by (auto simp: finishTimers_def split: if_splits)
  from nf have h: "snd (timers s ! k) = HideConfetti"
    by (cases "snd (timers s ! k)") (simp_all add: is_finish_def)
  from e have "finishTimers (?s\<lparr>current := (current ?s)\<lparr>showConfetti := False\<rparr>\<rparr>) = []"
    by (simp only: finishTimers_simps)
  with assms(1,2) show ?thesis
    by (simp add: s' h runTimer_def)
next
  case (CatalogLoaded sc)
  with assms show ?thesis by (auto simp: step_def)
next
  case (AuthChanged a t)
  with assms show ?thesis by (auto simp: step_def)
qed

lemma stuck_run:
  "gameState (current s) = spinning \<Longrightarrow> inflight s = [] \<Longrightarrow> finishTimers s = [] \<Longrightarrow>
   run s es = Some s' \<Longrightarrow>
     gameState (current s') = spinning \<and> finishTimers s' = [] \<and>
     winningItem (current s') = winningItem (current s) \<and> toasts s' = toasts s \<and>
     isSpinning (current s') = isSpinning (current s) \<and> hasWon (current s') = hasWon (current s)"
proof (induction es arbitrary: s)
  case Nil
  then show ?case by simp
next
  case (Cons e es)
  from Cons.prems obtain s1 where s1: "step s e = Some s1" and r: "run s1 es = Some s'"
    by (auto split: option.splits)
  from stuck_step [OF Cons.prems(1-3) s1] Cons.IH [OF _ _ _ r] show ?case
    by simp
qed

text \<open>
  Claim C3, on the specification's degraded-match scenario: the catalog holds one
  \<^verbatim>\<open>MONEY\<close> prize of value 5 and the result says a \<^verbatim>\<open>MONEY\<close> prize of value 2500 is
  won. No cell matches, \<^verbatim>\<open>startRouletteSpin\<close> returns at line 344 after line 334 has
  set the state to spinning, and no timer is scheduled. Whatever events follow, the page
  stays spinning with no landing cell, no animation, no win flag and no error toast: no
  fallback cell is synthesized and the spin is never failed.
\<close>

theorem unmatched_win_never_completes:
  assumes "run ex_page
      ([CatalogLoaded (ex_card [ex_prize ''a'' ''MONEY'' ''5'' None True]),
        ClickOpenBox,
        PlayReturns (ex_reply (ex_result True ''2500'' (Some (ex_won ''z'' ''MONEY'' ''2500'' None)))) id 0]
       @ es) = Some s'"
  shows "gameState (current s') = spinning \<and> winningItem (current s') = None \<and>
         finishTimers s' = [] \<and> \<not> isSpinning (current s') \<and> \<not> hasWon (current s') \<and>
         toasts s' = []"
proof -
  let ?prefix = "[CatalogLoaded (ex_card [ex_prize ''a'' ''MONEY'' ''5'' None True]),
        ClickOpenBox,
        PlayReturns (ex_reply (ex_result True ''2500'' (Some (ex_won ''z'' ''MONEY'' ''2500'' None)))) id 0]"
  let ?s = "the (run ex_page ?prefix)"
  have r: "run ex_page ?prefix \<noteq> None"
    by (simp add: model_defs parseFloat_examples)
  have g: "gameState (current ?s) = spinning" "inflight ?s = []" "timers ?s = []"
    by (simp_all add: model_defs parseFloat_examples)
  have v: "winningItem (current ?s) = None" "\<not> isSpinning (current ?s)" "\<not> hasWon (current ?s)"
    "toasts ?s = []"
    by (simp_all add: model_defs parseFloat_examples)
  from g(3) have f: "finishTimers ?s = []"
    by (simp add: finishTimers_def)
  from r obtain y where y: "run ex_page ?prefix = Some y"
    by auto
  from assms have "(case run ex_page ?prefix of None \<Rightarrow> None | Some s \<Rightarrow> run s es) = Some s'"
    by (simp only: run_append)
  then have "run y es = Some s'"
    by (simp only: y option.case)
  with y have "run ?s es = Some s'"
    by simp
  from stuck_run [OF g(1,2) f this] v show ?thesis
    by simp
qed

theorem unmatched_win_never_completes_witness:
  "run ex_page
      ([CatalogLoaded (ex_card [ex_prize ''a'' ''MONEY'' ''5'' None True]),
        ClickOpenBox,
        PlayReturns (ex_reply (ex_result True ''2500'' (Some (ex_won ''z'' ''MONEY'' ''2500'' None)))) id 0]
       @ [Elapse 4000, TimerFires 0]) = None \<and>
   run ex_page
      ([CatalogLoaded (ex_card [ex_prize ''a'' ''MONEY'' ''5'' None True]),
        ClickOpenBox,
        PlayReturns (ex_reply (ex_result True ''2500'' (Some (ex_won ''z'' ''MONEY'' ''2500'' None)))) id 0]
       @ [Elapse 4000, Elapse 60000]) \<noteq> None \<and>
   gameState (current (the (run ex_page
      ([CatalogLoaded (ex_card [ex_prize ''a'' ''MONEY'' ''5'' None True]),
        ClickOpenBox,
        PlayReturns (ex_reply (ex_result True ''2500'' (Some (ex_won ''z'' ''MONEY'' ''2500'' None)))) id 0]
       @ [Elapse 4000, Elapse 60000])))) = spinning \<and>
   winningItem (current (the (run ex_page
      ([CatalogLoaded (ex_card [ex_prize ''a'' ''MONEY'' ''5'' None True]),
        ClickOpenBox,
        PlayReturns (ex_reply (ex_result True ''2500'' (Some (ex_won ''z'' ''MONEY'' ''2500'' None)))) id 0]
       @ [Elapse 4000, Elapse 60000])))) = None"
proof -
  let ?es = "[CatalogLoaded (ex_card [ex_prize ''a'' ''MONEY'' ''5'' None True]),
        ClickOpenBox,
        PlayReturns (ex_reply (ex_result True ''2500'' (Some (ex_won ''z'' ''MONEY'' ''2500'' None)))) id 0]
       @ [Elapse 4000, Elapse 60000]"
  have n: "run ex_page
      ([CatalogLoaded (ex_card [ex_prize ''a'' ''MONEY'' ''5'' None True]),
        ClickOpenBox,
        PlayReturns (ex_reply (ex_result True ''2500'' (Some (ex_won ''z'' ''MONEY'' ''2500'' None)))) id 0]
       @ [Elapse 4000, TimerFires 0]) = None"
    by (simp add: model_defs parseFloat_examples)
  have r: "run ex_page ?es \<noteq> None"
    by (simp add: model_defs parseFloat_examples)
  then have "run ex_page ?es = Some (the (run ex_page ?es))"
    by simp
  from unmatched_win_never_completes [OF this] n r show ?thesis
    by simp
qed

subsection \<open>Rarity thresholds\<close>

lemma js_lt_not_ge: "js_lt a b \<Longrightarrow> \<not> js_ge a b"
  by (cases a; cases b) auto

text \<open>
  Claim C7. \<^verbatim>\<open>getRarityFromValue\<close> sends every number at or above 1000 to legendary,
  every number from 100 up to but excluding 1000 to epic, every number from 10 up to but
  excluding 100 to rare and every number below 10 to common; 1000, 100 and 10 themselves
  fall in the higher tier. The comparisons are JavaScript's, so the statement covers the
  infinities, and says nothing of NaN, which is neither below nor above anything.
\<close>

theorem getRarityFromValue_thresholds:
  "(js_ge v (Finite 1000) \<longrightarrow> getRarityFromValue v = Legendary) \<and>
   (js_ge v (Finite 100) \<and> js_lt v (Finite 1000) \<longrightarrow> getRarityFromValue v = Epic) \<and>
   (js_ge v (Finite 10) \<and> js_lt v (Finite 100) \<longrightarrow> getRarityFromValue v = Rare) \<and>
   (js_lt v (Finite 10) \<longrightarrow> getRarityFromValue v = Common) \<and>
   getRarityFromValue (Finite 1000) = Legendary \<and>
   getRarityFromValue (Finite 100) = Epic \<and>
   getRarityFromValue (Finite 10) = Rare"
proof -
  have ge_trans: "js_ge v (Finite a) \<Longrightarrow> b \<le> a \<Longrightarrow> js_ge v (Finite b)" for a b
    by (cases v) auto
  have lt_trans: "js_lt v (Finite a) \<Longrightarrow> a \<le> b \<Longrightarrow> \<not> js_ge v (Finite b)" for a b
    by (cases v) auto
  show ?thesis
    unfolding getRarityFromValue_def
    by (auto dest: js_lt_not_ge lt_trans [where b = 1000] lt_trans [where b = 100])
qed

theorem getRarityFromValue_thresholds_witness:
  "js_ge (Finite 2500) (Finite 1000) \<and> getRarityFromValue (Finite 2500) = Legendary \<and>
   js_ge (Finite 999) (Finite 100) \<and> js_lt (Finite 999) (Finite 1000) \<and>
   getRarityFromValue (Finite 999) = Epic \<and>
   js_ge (Finite 99) (Finite 10) \<and> js_lt (Finite 99) (Finite 100) \<and>
   getRarityFromValue (Finite 99) = Rare \<and>
   js_lt (Finite (19 / 2)) (Finite 10) \<and> getRarityFromValue (Finite (19 / 2)) = Common \<and>
   js_lt NegInfinity (Finite 10) \<and> getRarityFromValue NegInfinity = Common"
  using getRarityFromValue_thresholds [of "Finite 2500"]
    getRarityFromValue_thresholds [of "Finite 999"]
    getRarityFromValue_thresholds [of "Finite 99"]
    getRarityFromValue_thresholds [of "Finite (19 / 2)"]
    getRarityFromValue_thresholds [of NegInfinity]
  by simp

end
